theory Spec2Isabelle
  imports Main
begin

section \<open>The page state of class Main\<close>

text \<open>
  The front end is the single class \<open>Main\<close> of \<open>main.js\<close>, present in two revisions.  The
  model follows the later one, which has the branch trees and the text fitter;
  \<open>addProcessCount\<close>, \<open>removeProcessCount\<close> and the listeners for \<open>start-process\<close>,
  \<open>end-process\<close> and \<open>error\<close> are the same in both.  The methods mutate the field
  \<open>processCount\<close> and the page (through jQuery), and talk to the backend with \<open>emit\<close>.
  The model passes one record through every method: the counter, the visibility of
  \<open>#mainSpinner\<close>, the values of the form fields the handlers read, and the
  chronological log of the observable effects (oldest first).

  \<open>processCount\<close> is a JavaScript number that only ever changes by \<open>++\<close> and \<open>--\<close>
  from 0; below \<open>2^53\<close> these are exact, so it is modelled as an unbounded \<open>int\<close>.
\<close>

datatype jsval =
    JStr string
  | JBool bool
  | JNum int
  | JObj "(string \<times> jsval) list"
  | JUndefined

datatype effect =
    JShow string            \<comment> \<open>\<open>$('#id').show()\<close>\<close>
  | JHide string            \<comment> \<open>\<open>$('#id').hide()\<close>\<close>
  | Emit string jsval       \<comment> \<open>\<open>emit(name, payload)\<close>\<close>
  | Alert string            \<comment> \<open>\<open>alert(msg)\<close>\<close>
  | ModalHide string        \<comment> \<open>\<open>$('#id').modal('hide')\<close>\<close>

record main_state =
  processCount :: int
  spinnerVisible :: bool
  vals :: "string \<Rightarrow> string"
  checked :: "string \<Rightarrow> bool"
  effects :: "effect list"

text \<open>The constructor sets \<open>processCount = 0\<close>; \<open>run()\<close> hides the spinner before any
  listener is registered.  The log starts empty.\<close>

definition initial :: "(string \<Rightarrow> string) \<Rightarrow> (string \<Rightarrow> bool) \<Rightarrow> main_state" where
  "initial vs cs =
     \<lparr>processCount = 0, spinnerVisible = False, vals = vs, checked = cs, effects = []\<rparr>"

definition show_spinner :: "main_state \<Rightarrow> main_state" where
  "show_spinner st =
     st\<lparr>spinnerVisible := True, effects := effects st @ [JShow ''mainSpinner'']\<rparr>"

definition hide_spinner :: "main_state \<Rightarrow> main_state" where
  "hide_spinner st =
     st\<lparr>spinnerVisible := False, effects := effects st @ [JHide ''mainSpinner'']\<rparr>"

text \<open>
  \<^verbatim>\<open>
  addProcessCount() {
      this.processCount++;
      $('#mainSpinner').show();
  }
  removeProcessCount() {
      this.processCount--;
      if (this.processCount <= 0) {
          $('#mainSpinner').hide();
          // This should only happen when an error occurs on something that doesn't use the spinner
          if (this.processCount < 0) {
              this.processCount = 0;
          }
      }
  }
  \<close>
\<close>

definition addProcessCount :: "main_state \<Rightarrow> main_state" where
  "addProcessCount st = show_spinner (st\<lparr>processCount := processCount st + 1\<rparr>)"

definition removeProcessCount :: "main_state \<Rightarrow> main_state" where
  "removeProcessCount st =
     (let st1 = st\<lparr>processCount := processCount st - 1\<rparr> in
      if processCount st1 \<le> 0 then
        (let st2 = hide_spinner st1 in
         if processCount st2 < 0 then st2\<lparr>processCount := 0\<rparr> else st2)
      else st1)"

subsection \<open>Sequences of start and end calls\<close>

datatype call = Start | End

fun do_call :: "call \<Rightarrow> main_state \<Rightarrow> main_state" where
  "do_call Start st = addProcessCount st"
| "do_call End st = removeProcessCount st"

fun run_calls :: "call list \<Rightarrow> main_state \<Rightarrow> main_state" where
  "run_calls [] st = st"
| "run_calls (c # cs) st = run_calls cs (do_call c st)"

definition starts :: "call list \<Rightarrow> int" where
  "starts cs = int (count_list cs Start)"

definition ends :: "call list \<Rightarrow> int" where
  "ends cs = int (count_list cs End)"

text \<open>How often the spinner has been hidden so far.\<close>

definition idle_signals :: "main_state \<Rightarrow> int" where
  "idle_signals st = int (count_list (effects st) (JHide ''mainSpinner''))"

text \<open>Along a run from state \<open>st\<close>: the number of calls that take the counter from a
  positive value to 0, and the number of \<open>end()\<close> calls issued while it is 0.\<close>

fun drops_to_zero :: "call list \<Rightarrow> main_state \<Rightarrow> int" where
  "drops_to_zero [] st = 0"
| "drops_to_zero (c # cs) st =
     (if 0 < processCount st \<and> processCount (do_call c st) = 0 then 1 else 0)
       + drops_to_zero cs (do_call c st)"

fun ends_at_zero :: "call list \<Rightarrow> main_state \<Rightarrow> int" where
  "ends_at_zero [] st = 0"
| "ends_at_zero (c # cs) st =
     (if c = End \<and> processCount st = 0 then 1 else 0) + ends_at_zero cs (do_call c st)"

section \<open>Event listeners and click handlers of \<open>run()\<close>\<close>

definition emit :: "string \<Rightarrow> jsval \<Rightarrow> main_state \<Rightarrow> main_state" where
  "emit name payload st = st\<lparr>effects := effects st @ [Emit name payload]\<rparr>"

definition alert :: "string \<Rightarrow> main_state \<Rightarrow> main_state" where
  "alert msg st = st\<lparr>effects := effects st @ [Alert msg]\<rparr>"

definition modal_hide :: "string \<Rightarrow> main_state \<Rightarrow> main_state" where
  "modal_hide i st = st\<lparr>effects := effects st @ [ModalHide i]\<rparr>"

definition set_val :: "string \<Rightarrow> string \<Rightarrow> main_state \<Rightarrow> main_state" where
  "set_val i v st = st\<lparr>vals := (vals st)(i := v)\<rparr>"

text \<open>\<open>Boolean.prototype.toString\<close>.\<close>

definition bool_toString :: "bool \<Rightarrow> string" where
  "bool_toString b = (if b then ''true'' else ''false'')"

text \<open>
  The listeners for the backend's \<open>start-process\<close>, \<open>end-process\<close> and \<open>error\<close> events:
  \<^verbatim>\<open>
  listen("start-process", ev => { self.addProcessCount(); }).then();
  listen("end-process", ev => { self.removeProcessCount(); }).then();
  listen("error", ev => {
      // TODO: Maybe make a modal for errors instead?
      self.removeProcessCount();
      alert(ev.payload);
  }).then();
  \<close>
\<close>

definition on_start_process :: "main_state \<Rightarrow> main_state" where
  "on_start_process st = addProcessCount st"

definition on_end_process :: "main_state \<Rightarrow> main_state" where
  "on_end_process st = removeProcessCount st"

definition on_error :: "string \<Rightarrow> main_state \<Rightarrow> main_state" where
  "on_error payload st = alert payload (removeProcessCount st)"

text \<open>
  The metadata the backend attaches to a branch or tag; the handlers of a rendered leaf
  read \<open>branch_type\<close>, \<open>full_branch_name\<close> and \<open>branch_shorthand\<close> from it.
\<close>

record branch_info =
  is_head :: bool
  behind :: int
  ahead :: int
  branch_type :: string
  full_branch_name :: string
  branch_shorthand :: string

text \<open>
  The user actions whose handlers call \<open>emit\<close>, one constructor per handler of the newer
  revision of \<open>main.js\<close>: the buttons wired in \<open>run()\<close>, the stage and unstage buttons
  that \<open>updateFilesChangedInfo\<close> creates per file (the argument is the file object
  received from the backend, sent back unchanged), the double click on a branch leaf
  (\<open>buildBranchResultHTML\<close>) and the delete button of the context menu
  (\<open>showContextMenu(event, branchShorthand, branchType)\<close>).  The click on a file row,
  which emits \<open>file-diff\<close> after changing the row selection, is left out.  A click that
  bubbles to the window also runs the window's own handler afterwards; that is a
  separate handler and not part of these.
\<close>

datatype click =
    SavePreferencesBtn
  | SaveCredentialsBtn
  | CommitBtn
  | CommitPushBtn
  | FetchBtn
  | PullBtn
  | PushBtn
  | BranchBtn
  | StageBtn jsval
  | UnstageBtn jsval
  | BranchDblClick branch_info
  | DeleteBtn string string

text \<open>The call \<open>parseInt(s)\<close> of the preferences dialog is kept unevaluated, as an
  object holding the string it is applied to.\<close>

definition parseInt_of :: "string \<Rightarrow> jsval" where
  "parseInt_of s = JObj [(''parseInt'', JStr s)]"

text \<open>The message of the delete button for a branch type the menu does not know.\<close>

definition not_implemented :: string where
  "not_implemented = ''Not implemented, so'' @ ''rry!''"

fun handle_click :: "click \<Rightarrow> main_state \<Rightarrow> main_state" where
  "handle_click SavePreferencesBtn st =
     (let st = addProcessCount st;
          st = emit ''save-preferences''
                 (JObj [(''limit_commits'', JBool (checked st ''limitCommitsCheckBox'')),
                        (''commit_count'', parseInt_of (vals st ''commitCountNumber''))]) st
      in modal_hide ''preferencesModal'' st)"
| "handle_click SaveCredentialsBtn st =
     (let st = emit ''save-credentials''
                 (JObj [(''username'', JStr (vals st ''usernameTxt'')),
                        (''password'', JStr (vals st ''passwordTxt''))]) st;
          st = set_val ''usernameTxt'' [] st;
          st = set_val ''passwordTxt'' [] st
      in modal_hide ''credentialsModal'' st)"
| "handle_click CommitBtn st =
     (let st = addProcessCount st;
          st = emit ''commit''
                 (JObj [(''summaryText'', JStr (vals st ''summaryTxt'')),
                        (''messageText'', JStr (vals st ''messageTxt''))]) st;
          st = set_val ''summaryTxt'' [] st
      in set_val ''messageTxt'' [] st)"
| "handle_click CommitPushBtn st =
     (let st = addProcessCount st;
          st = emit ''commit-push''
                 (JObj [(''summaryText'', JStr (vals st ''summaryTxt'')),
                        (''messageText'', JStr (vals st ''messageTxt''))]) st;
          st = set_val ''summaryTxt'' [] st
      in set_val ''messageTxt'' [] st)"
| "handle_click FetchBtn st = emit ''fetch'' JUndefined (addProcessCount st)"
| "handle_click PullBtn st = emit ''pull'' JUndefined (addProcessCount st)"
| "handle_click PushBtn st =
     (let st = addProcessCount st;
          st = emit ''push''
                 (JObj [(''selectedRemote'', JStr (vals st ''remoteSelect'')),
                        (''isForcePush'', JStr (bool_toString (checked st ''forcePushCheckBox'')))]) st
      in modal_hide ''pushModal'' st)"
| "handle_click BranchBtn st =
     (let st = addProcessCount st;
          st = emit ''branch''
                 (JObj [(''branch_name'', JStr (vals st ''branchTxt'')),
                        (''checkout_on_create'',
                           JStr (bool_toString (checked st ''branchCheckoutCheckBox'')))]) st;
          st = set_val ''branchTxt'' [] st
      in modal_hide ''branchModal'' st)"
| "handle_click (StageBtn unstagedFile) st = emit ''stage'' unstagedFile st"
| "handle_click (UnstageBtn stagedFile) st = emit ''unstage'' stagedFile st"
| "handle_click (BranchDblClick bi) st =
     (if branch_type bi = ''remote'' then
        emit ''checkout-remote''
          (JObj [(''full_branch_name'', JStr (full_branch_name bi)),
                 (''branch_shorthand'', JStr (branch_shorthand bi))]) (addProcessCount st)
      else if branch_type bi = ''local'' then
        emit ''checkout'' (JStr (full_branch_name bi)) (addProcessCount st)
      else st)"
| "handle_click (DeleteBtn branchShorthand branchType) st =
     (if branchType = ''local'' then
        emit ''delete-local-branch'' (JStr branchShorthand) (addProcessCount st)
      else if branchType = ''remote'' then
        emit ''delete-remote-branch'' (JStr branchShorthand) (addProcessCount st)
      else if branchType = ''tag'' then
        emit ''delete-tag'' (JStr branchShorthand) (addProcessCount st)
      else alert not_implemented st)"

text \<open>What a handler appended to the log.\<close>

definition new_effects :: "click \<Rightarrow> main_state \<Rightarrow> effect list" where
  "new_effects c st = drop (length (effects st)) (effects (handle_click c st))"

section \<open>TextFitter: \<open>truncateFilePathText\<close>\<close>

text \<open>
  \<^verbatim>\<open>
  truncateFilePathText() {
      const filePathText = document.getElementsByClassName('file-path-txt');
      for (let i = 0; i < filePathText.length; i++) {
          const txt = filePathText[i],
              shrunkenTxtContainer = txt.parentElement.parentElement;
          // This is so the text can "grow" again.
          txt.textContent = txt.getAttribute('data-original-txt');
          if (txt.clientWidth > 0 && shrunkenTxtContainer.clientWidth > 0) {
              // Set up the text to have ellipsis for width calculations
              if (txt.clientWidth >= shrunkenTxtContainer.clientWidth) {
                  txt.textContent = "..." + txt.textContent;
              }
              while (txt.clientWidth >= shrunkenTxtContainer.clientWidth) {
                  txt.textContent = "..." + txt.textContent.substring(4);
                  // Stop infinite loop from happening if all the text gets filtered out.
                  if (txt.textContent === "...") {
                      break;
                  }
              }
          }
      }
  }
  \<close>
  The layout engine is not part of the sources.  It enters as two parameters: the
  function \<open>clientWidth\<close> giving the width of the label for each text it may hold
  (\<open>txt.clientWidth\<close>), and the width \<open>w\<close> of the label's container
  (\<open>shrunkenTxtContainer.clientWidth\<close>), which the loop does not change.  Strings are
  lists of characters; \<open>substring(4)\<close> is \<open>drop 4\<close>.

  The \<open>while\<close> loop, started on the current text \<open>t\<close>:
\<close>

function shrink :: "(string \<Rightarrow> int) \<Rightarrow> int \<Rightarrow> string \<Rightarrow> string" where
  "shrink clientWidth w t =
     (if clientWidth t \<ge> w then
        (let t' = ''...'' @ drop 4 t in
         if t' = ''...'' then t' else shrink clientWidth w t')
      else t)"
  by pat_completeness auto
termination
  by (relation "measure (\<lambda>(clientWidth, w, t). length t)") auto

declare shrink.simps [simp del]

text \<open>The body of the \<open>for\<close> loop for one label whose \<open>data-original-txt\<close> is \<open>original\<close>;
  the result is the label's new \<open>textContent\<close>.\<close>

definition fit :: "(string \<Rightarrow> int) \<Rightarrow> int \<Rightarrow> string \<Rightarrow> string" where
  "fit clientWidth w original =
     (let t = original in
      if clientWidth t > 0 \<and> w > 0 then
        shrink clientWidth w (if clientWidth t \<ge> w then ''...'' @ t else t)
      else t)"

record file_path_txt =
  data_original_txt :: string
  textContent :: string
  containerWidth :: int

definition truncateFilePathText ::
    "(string \<Rightarrow> int) \<Rightarrow> file_path_txt list \<Rightarrow> file_path_txt list" where
  "truncateFilePathText clientWidth filePathText =
     map (\<lambda>txt. txt\<lparr>textContent := fit clientWidth (containerWidth txt) (data_original_txt txt)\<rparr>)
       filePathText"

subsection \<open>The algorithm as the specification words it\<close>

text \<open>
  For comparison only, the specification's description of \<open>TextFitter.fit\<close>: reset to
  the original text; if its measured width is less than the container width, return it
  unchanged; otherwise prepend the ellipsis and repeatedly remove 4 characters from the
  front of the current text (not the ellipsis), re-prepend the ellipsis and measure
  again, until the measured width is below the container width or only the ellipsis is
  left.  \<open>cur\<close> is the current text without the ellipsis.
\<close>

function spec_shrink :: "(string \<Rightarrow> int) \<Rightarrow> int \<Rightarrow> string \<Rightarrow> string" where
  "spec_shrink msr w cur =
     (if msr (''...'' @ cur) < w then ''...'' @ cur
      else (let cur' = drop 4 cur in
            if cur' = [] then ''...'' else spec_shrink msr w cur'))"
  by pat_completeness auto
termination
  by (relation "measure (\<lambda>(msr, w, cur). length cur)") auto

declare spec_shrink.simps [simp del]

definition spec_fit :: "(string \<Rightarrow> int) \<Rightarrow> int \<Rightarrow> string \<Rightarrow> string" where
  "spec_fit msr w original =
     (if msr original < w then original else spec_shrink msr w original)"

text \<open>Two width functions for concrete runs: a monospaced font of 7 pixels per
  character, and a width that is 10 pixels for every text except six dots, which
  take 1 pixel.\<close>

definition px7 :: "string \<Rightarrow> int" where
  "px7 t = 7 * int (length t)"

definition six_dots_narrow :: "string \<Rightarrow> int" where
  "six_dots_narrow t = (if t = ''......'' then 1 else 10)"

section \<open>Branch trees: \<open>buildBranchResultHTML\<close> and \<open>updateBranchInfo\<close>\<close>

text \<open>
  A node of the tree the backend sends: its \<open>text\<close> (one path segment), its
  \<open>children\<close>, and its \<open>branch_info\<close>, which the code reads on leaves only.
\<close>

datatype branch_tree = BranchTree string "branch_tree list" branch_info

fun children :: "branch_tree \<Rightarrow> branch_tree list" where
  "children (BranchTree txt cs bi) = cs"

text \<open>
  The markup \<open>buildBranchResultHTML\<close> appends to a list.  A child with children becomes
  \<^verbatim>\<open><li><span class="parent-tree"><i class="fa-solid fa-caret-down"></i> text</span>
      <ul id="newParentTxt" class="nested sub-tree-view"> ... </ul></li>\<close>
  modelled as \<open>Nested id active rotated text items\<close>: the id of the nested list, whether
  that list carries the class \<open>active-tree\<close>, whether the caret in its header carries
  \<open>rotated-caret\<close>, the header text and the rendered children.  A child without children
  becomes a leaf row \<open>InnerItem text badges branch_info\<close>: its text (with the head
  marker), the behind and ahead badges in the order they are appended, and the
  metadata its double-click and context-menu handlers close over.

  The code builds the nested list and its header by pasting the names into markup,
  unescaped, and has jQuery parse the result.  A name made of plain characters ends up
  in the \<open>id\<close> attribute and in the header exactly as it is.  A double quote would end
  the attribute (and what follows could add further attributes, such as a class), \<open>&\<close>
  would start a character reference, \<open><\<close> in the header would start a tag.  What the
  parser makes of such names is not modelled: plain characters are the printable ASCII
  characters other than \<open>"\<close>, \<open>&\<close>, \<open><\<close> and \<open>>\<close>, and rendering gives \<open>None\<close> as soon as
  the id of a nested list holds any other character.  The text of a leaf row is set
  with \<open>.text()\<close>, which does not parse it, so leaf names are not restricted.
\<close>

definition html_plain_char :: "char \<Rightarrow> bool" where
  "html_plain_char c \<longleftrightarrow>
     32 \<le> (of_char c :: nat) \<and> (of_char c :: nat) \<le> 126
     \<and> c \<notin> {CHR 0x22, CHR 0x26, CHR 0x3C, CHR 0x3E}"

definition html_plain :: "string \<Rightarrow> bool" where
  "html_plain s \<longleftrightarrow> list_all html_plain_char s"

datatype badge = BehindCount int | AheadCount int

datatype view =
    Nested string bool bool string "view list"
  | InnerItem string "badge list" branch_info

text \<open>
  \<^verbatim>\<open>
  buildBranchResultHTML(currentChildren, $ul, parentTxt) {
      const self = this;
      currentChildren.forEach((child) => {
          if (child['children'].length > 0) {
              const newParentTxt = parentTxt + '-' + child['text'];
              const $nestedList = $('<ul id="' + newParentTxt + '" class="nested sub-tree-view"></ul>');
              self.buildBranchResultHTML(child['children'], $nestedList, newParentTxt);
              const $newListItem = $('<li><span class="parent-tree">...' + child['text'] + '</span></li>');
              $newListItem.append($nestedList);
              $ul.append($newListItem);
          } else {
              const $innerListItem = $('<li class="hoverable-row unselectable inner-branch-item"></li>');
              let childText = '';
              if (child['branch_info']['is_head'] === true) { childText += '* '; }
              childText += child['text'];
              $innerListItem.text(childText);
              if (child['branch_info']['behind'] !== 0) { ... $innerListItem.append($behindCount); }
              if (child['branch_info']['ahead'] !== 0) { ... $innerListItem.append($aheadCount); }
              ... // dblclick and contextmenu handlers
              $ul.append($innerListItem);
          }
      });
  }
  \<close>
  The function returns the items it appends to \<open>$ul\<close>, in order, or \<open>None\<close> where the
  markup is outside the plain fragment.
\<close>

fun buildBranchResultHTML :: "branch_tree list \<Rightarrow> string \<Rightarrow> view list option"
  and build_child :: "branch_tree \<Rightarrow> string \<Rightarrow> view option" where
  "buildBranchResultHTML [] parentTxt = Some []"
| "buildBranchResultHTML (child # rest) parentTxt =
     (case build_child child parentTxt of
        None \<Rightarrow> None
      | Some item \<Rightarrow>
          (case buildBranchResultHTML rest parentTxt of
             None \<Rightarrow> None
           | Some items \<Rightarrow> Some (item # items)))"
| "build_child (BranchTree txt cs bi) parentTxt =
     (if length cs > 0 then
        (let newParentTxt = parentTxt @ ''-'' @ txt in
         if html_plain newParentTxt then
           (case buildBranchResultHTML cs newParentTxt of
              None \<Rightarrow> None
            | Some nested \<Rightarrow> Some (Nested newParentTxt False False txt nested))
         else None)
      else
        Some (InnerItem ((if is_head bi then ''* '' else []) @ txt)
          ((if behind bi \<noteq> 0 then [BehindCount (behind bi)] else [])
           @ (if ahead bi \<noteq> 0 then [AheadCount (ahead bi)] else []))
          bi))"

text \<open>
  A click on the header of a nested list:
  \<^verbatim>\<open>
  function togglerClick() {
      this.parentElement.querySelector(".nested").classList.toggle("active-tree");
      this.querySelector(".fa-caret-down").classList.toggle("rotated-caret");
  }
  \<close>
\<close>

fun togglerClick :: "view \<Rightarrow> view" where
  "togglerClick (Nested i a r l xs) = Nested i (\<not> a) (\<not> r) l xs"
| "togglerClick (InnerItem t bs bi) = InnerItem t bs bi"

text \<open>The ids of the lists that carry \<open>active-tree\<close>, and the ids of all lists, both in
  document order.\<close>

fun active_ids :: "view \<Rightarrow> string list"
  and active_ids_list :: "view list \<Rightarrow> string list" where
  "active_ids (Nested i a r l xs) = (if a then [i] else []) @ active_ids_list xs"
| "active_ids (InnerItem t bs bi) = []"
| "active_ids_list [] = []"
| "active_ids_list (x # xs) = active_ids x @ active_ids_list xs"

fun view_ids :: "view \<Rightarrow> string list"
  and view_ids_list :: "view list \<Rightarrow> string list" where
  "view_ids (Nested i a r l xs) = i # view_ids_list xs"
| "view_ids (InnerItem t bs bi) = []"
| "view_ids_list [] = []"
| "view_ids_list (x # xs) = view_ids x @ view_ids_list xs"

text \<open>
  The callback \<open>updateBranchInfo\<close> runs on every selected list:
  \<^verbatim>\<open>
  $(this).addClass("active-tree");
  $(this).parent().children('.parent-tree').children('.fa-caret-down').addClass('rotated-caret');
  \<close>
  \<open>expand_all ids\<close> runs it on every list whose id is in \<open>ids\<close>; \<open>expand_first i\<close> runs it
  on the first list, in document order, whose id is \<open>i\<close>, and tells whether there was one.
\<close>

fun expand_all :: "string list \<Rightarrow> view \<Rightarrow> view"
  and expand_all_list :: "string list \<Rightarrow> view list \<Rightarrow> view list" where
  "expand_all ids (Nested i a r l xs) =
     (if i \<in> set ids then Nested i True True l (expand_all_list ids xs)
      else Nested i a r l (expand_all_list ids xs))"
| "expand_all ids (InnerItem t bs bi) = InnerItem t bs bi"
| "expand_all_list ids [] = []"
| "expand_all_list ids (x # xs) = expand_all ids x # expand_all_list ids xs"

fun expand_first :: "string \<Rightarrow> view \<Rightarrow> view \<times> bool"
  and expand_first_list :: "string \<Rightarrow> view list \<Rightarrow> view list \<times> bool" where
  "expand_first i (Nested j a r l xs) =
     (if j = i then (Nested j True True l xs, True)
      else (case expand_first_list i xs of (xs', found) \<Rightarrow> (Nested j a r l xs', found)))"
| "expand_first i (InnerItem t bs bi) = (InnerItem t bs bi, False)"
| "expand_first_list i [] = ([], False)"
| "expand_first_list i (x # xs) =
     (case expand_first i x of
        (x', True) \<Rightarrow> (x' # xs, True)
      | (x', False) \<Rightarrow> (case expand_first_list i xs of (xs', found) \<Rightarrow> (x' # xs', found)))"

subsection \<open>The selector string and what jQuery does with it\<close>

text \<open>\<open>Array.prototype.join\<close>: the empty array gives the empty string.\<close>

fun join :: "string \<Rightarrow> string list \<Rightarrow> string" where
  "join sep [] = []"
| "join sep [x] = x"
| "join sep (x # y # ys) = x @ sep @ join sep (y # ys)"

text \<open>
  \<open>updateBranchInfo\<close> hands the string \<open>"#" + activeTreeIds.join(",#")\<close> to \<open>$(...)\<close>.
  jQuery is a library, not part of the sources; what it does with such a string is
  modelled for the selectors that are a comma-separated group of \<open>#id\<close> parts:
  \<^item> every part is \<open>#\<close> followed by at least one of the characters \<open>[A-Za-z0-9_-]\<close>: jQuery
    selects by id.  A single such part goes through \<open>document.getElementById\<close> and
    selects the first element with the id; a group of several goes through
    \<open>querySelectorAll\<close> and selects every element whose id is one of them;
  \<^item> some part is a bare \<open>#\<close> and the others are as above: the string is no selector, and
    jQuery throws \<open>Syntax error, unrecognized expression\<close>.  The empty array gives exactly
    the string \<open>#\<close>;
  \<^item> anything else (a part with a character that selector syntax treats specially,
    such as \<open>.\<close>, \<open>:\<close>, \<open>[\<close> or a blank) is not interpreted: the result is
    \<open>Unmodelled\<close> and nothing is stated about it.
\<close>

fun split_on :: "char \<Rightarrow> string \<Rightarrow> string list" where
  "split_on c [] = [[]]"
| "split_on c (x # xs) =
     (if x = c then [] # split_on c xs
      else (case split_on c xs of [] \<Rightarrow> [[x]] | p # ps \<Rightarrow> (x # p) # ps))"

definition ident_char :: "char \<Rightarrow> bool" where
  "ident_char c \<longleftrightarrow>
     c \<in> set ''ABCDEFGHIJKLMNOPQRSTUVWXYZabcdefghijklmnopqrstuvwxyz0123456789_-''"

definition simple_id :: "string \<Rightarrow> bool" where
  "simple_id i \<longleftrightarrow> i \<noteq> [] \<and> list_all ident_char i"

datatype selector_part = IdSel string | BareHash | OtherSel

fun classify :: "string \<Rightarrow> selector_part" where
  "classify [] = OtherSel"
| "classify (c # i) =
     (if c \<noteq> CHR ''#'' then OtherSel
      else if i = [] then BareHash
      else if list_all ident_char i then IdSel i
      else OtherSel)"

fun sel_ids :: "selector_part list \<Rightarrow> string list" where
  "sel_ids [] = []"
| "sel_ids (IdSel i # ps) = i # sel_ids ps"
| "sel_ids (p # ps) = sel_ids ps"

datatype jq_result = Selected "string list" | SyntaxError string | Unmodelled

definition jq_select :: "string \<Rightarrow> jq_result" where
  "jq_select sel =
     (let parts = map classify (split_on CHR '','' sel) in
      if OtherSel \<in> set parts then Unmodelled
      else if BareHash \<in> set parts then SyntaxError sel
      else Selected (sel_ids parts))"

subsection \<open>The three tree views of the page\<close>

text \<open>
  The page holds the lists \<open>#localBranches\<close>, \<open>#remoteBranches\<close> and \<open>#tags\<close>, in this
  order.  Its static markup is not part of the sources; each of the three is modelled
  like a generated nested list: it may carry \<open>active-tree\<close>, its header's caret may
  carry \<open>rotated-caret\<close>, and it has content.  No other element of the page carries
  \<open>active-tree\<close> or an id that one of the three lists or their nested lists has, and
  the page is rendered in no-quirks mode, where ids are compared case-sensitively.
\<close>

record container =
  active_tree :: bool
  rotated_caret :: bool
  content :: "view list"

record document =
  localBranches :: container
  remoteBranches :: container
  tags :: container

record branch_info_list =
  local_branch_info_tree :: branch_tree
  remote_branch_info_tree :: branch_tree
  tag_branch_info_tree :: branch_tree

definition container_active_ids :: "string \<Rightarrow> container \<Rightarrow> string list" where
  "container_active_ids cid c =
     (if active_tree c then [cid] else []) @ active_ids_list (content c)"

text \<open>\<^verbatim>\<open>$('.active-tree').each(function() { activeTreeIds.push($(this).attr('id')); });\<close>\<close>

definition activeTreeIds :: "document \<Rightarrow> string list" where
  "activeTreeIds doc =
     container_active_ids ''localBranches'' (localBranches doc)
     @ container_active_ids ''remoteBranches'' (remoteBranches doc)
     @ container_active_ids ''tags'' (tags doc)"

definition all_ids :: "document \<Rightarrow> string list" where
  "all_ids doc =
     ''localBranches'' # view_ids_list (content (localBranches doc))
     @ ''remoteBranches'' # view_ids_list (content (remoteBranches doc))
     @ ''tags'' # view_ids_list (content (tags doc))"

text \<open>Emptying the three lists and building them again from the roots' children;
  \<open>None\<close> when one of the three renderings is outside the plain fragment.\<close>

definition rebuild :: "document \<Rightarrow> branch_info_list \<Rightarrow> document option" where
  "rebuild doc branch_info_list =
     (case buildBranchResultHTML (children (local_branch_info_tree branch_info_list))
             ''localBranches'' of
        None \<Rightarrow> None
      | Some locals \<Rightarrow>
     (case buildBranchResultHTML (children (remote_branch_info_tree branch_info_list))
             ''remoteBranches'' of
        None \<Rightarrow> None
      | Some remotes \<Rightarrow>
     (case buildBranchResultHTML (children (tag_branch_info_tree branch_info_list))
             ''tags'' of
        None \<Rightarrow> None
      | Some tagItems \<Rightarrow>
          Some (doc\<lparr>localBranches := (localBranches doc)\<lparr>content := locals\<rparr>,
                    remoteBranches := (remoteBranches doc)\<lparr>content := remotes\<rparr>,
                    tags := (tags doc)\<lparr>content := tagItems\<rparr>\<rparr>))))"

definition expand_container_all :: "string list \<Rightarrow> string \<Rightarrow> container \<Rightarrow> container" where
  "expand_container_all ids cid c =
     (if cid \<in> set ids
      then c\<lparr>active_tree := True, rotated_caret := True,
             content := expand_all_list ids (content c)\<rparr>
      else c\<lparr>content := expand_all_list ids (content c)\<rparr>)"

definition expand_container_first :: "string \<Rightarrow> string \<Rightarrow> container \<Rightarrow> container \<times> bool" where
  "expand_container_first i cid c =
     (if cid = i then (c\<lparr>active_tree := True, rotated_caret := True\<rparr>, True)
      else (case expand_first_list i (content c) of (xs, found) \<Rightarrow> (c\<lparr>content := xs\<rparr>, found)))"

definition expand_document_all :: "string list \<Rightarrow> document \<Rightarrow> document" where
  "expand_document_all ids doc =
     doc\<lparr>localBranches := expand_container_all ids ''localBranches'' (localBranches doc),
         remoteBranches := expand_container_all ids ''remoteBranches'' (remoteBranches doc),
         tags := expand_container_all ids ''tags'' (tags doc)\<rparr>"

definition expand_document_first :: "string \<Rightarrow> document \<Rightarrow> document" where
  "expand_document_first i doc =
     (case expand_container_first i ''localBranches'' (localBranches doc) of
        (c, True) \<Rightarrow> doc\<lparr>localBranches := c\<rparr>
      | (c, False) \<Rightarrow>
          (case expand_container_first i ''remoteBranches'' (remoteBranches doc) of
             (c, True) \<Rightarrow> doc\<lparr>remoteBranches := c\<rparr>
           | (c, False) \<Rightarrow>
               (case expand_container_first i ''tags'' (tags doc) of
                  (c, found) \<Rightarrow> doc\<lparr>tags := c\<rparr>)))"

text \<open>
  \<^verbatim>\<open>
  updateBranchInfo(branch_info_list) {
      const self = this,
          $localBranches = $('#localBranches'),
          $remoteBranches = $('#remoteBranches'),
          $tags = $('#tags');

      let activeTreeIds = [];
      $('.active-tree').each(function() {
          activeTreeIds.push($(this).attr('id'));
      });

      $localBranches.empty();
      $remoteBranches.empty();
      $tags.empty();

      // The root node is empty, so get its children.
      self.buildBranchResultHTML(branch_info_list['local_branch_info_tree']['children'], $localBranches, "localBranches");
      self.buildBranchResultHTML(branch_info_list['remote_branch_info_tree']['children'], $remoteBranches, "remoteBranches");
      self.buildBranchResultHTML(branch_info_list['tag_branch_info_tree']['children'], $tags, "tags");
      self.setupTreeViews();

      const activeTreeIdsSelector = "#" + activeTreeIds.join(",#");
      $(activeTreeIdsSelector).each(function() {
          $(this).addClass("active-tree");
          $(this).parent().children('.parent-tree').children('.fa-caret-down').addClass('rotated-caret');
      });
  }
  \<close>
  The result is the page as the call leaves it, and how the call ended.  When jQuery
  throws, the lists have already been rebuilt and nothing has been expanded again.
  (\<open>setupTreeViews\<close> only registers the click listener.)  With \<open>NotModelled\<close> (names or
  a selector outside the modelled fragments) nothing is stated about the page; the
  page component is then the last page the model knows.
\<close>

datatype outcome = Completed | Raised string | NotModelled

definition updateBranchInfo :: "document \<Rightarrow> branch_info_list \<Rightarrow> document \<times> outcome" where
  "updateBranchInfo doc branch_info_list =
     (let activeTreeIds = activeTreeIds doc in
      case rebuild doc branch_info_list of
        None \<Rightarrow> (doc, NotModelled)
      | Some doc \<Rightarrow>
          (let activeTreeIdsSelector = ''#'' @ join '',#'' activeTreeIds
           in case jq_select activeTreeIdsSelector of
                SyntaxError e \<Rightarrow> (doc, Raised e)
              | Unmodelled \<Rightarrow> (doc, NotModelled)
              | Selected [i] \<Rightarrow> (expand_document_first i doc, Completed)
              | Selected ids \<Rightarrow> (expand_document_all ids doc, Completed)))"

subsection \<open>Path identities\<close>

text \<open>
  The id \<open>buildBranchResultHTML\<close> gives the nested list reached from container
  \<open>containerId\<close> along the segments \<open>segs\<close>: at every level \<open>parentTxt + '-' + child['text']\<close>.
  \<open>interior_paths_list\<close> lists the segment sequences of the nodes that have children, in
  document order.
\<close>

definition path_id :: "string \<Rightarrow> string list \<Rightarrow> string" where
  "path_id containerId segs = foldl (\<lambda>parentTxt txt. parentTxt @ ''-'' @ txt) containerId segs"

fun interior_paths :: "branch_tree \<Rightarrow> string list list"
  and interior_paths_list :: "branch_tree list \<Rightarrow> string list list" where
  "interior_paths (BranchTree txt cs bi) =
     (if length cs > 0 then [txt] # map ((#) txt) (interior_paths_list cs) else [])"
| "interior_paths_list [] = []"
| "interior_paths_list (child # rest) = interior_paths child @ interior_paths_list rest"

text \<open>The names of all nodes with children are plain: in a list of trees, and in the
  three trees of a snapshot.\<close>

definition plain_names :: "branch_tree list \<Rightarrow> bool" where
  "plain_names cs \<longleftrightarrow> list_all (list_all html_plain) (interior_paths_list cs)"

definition plain_snapshot :: "branch_info_list \<Rightarrow> bool" where
  "plain_snapshot branch_info_list \<longleftrightarrow>
     plain_names (children (local_branch_info_tree branch_info_list))
     \<and> plain_names (children (remote_branch_info_tree branch_info_list))
     \<and> plain_names (children (tag_branch_info_tree branch_info_list))"

section \<open>Concrete states\<close>

text \<open>A local branch leaf, a directory node, and a snapshot with local branches only.\<close>

definition leaf :: "string \<Rightarrow> string \<Rightarrow> branch_tree" where
  "leaf txt full =
     BranchTree txt []
       \<lparr>is_head = False, behind = 0, ahead = 0, branch_type = ''local'',
        full_branch_name = full, branch_shorthand = full\<rparr>"

definition no_info :: branch_info where
  "no_info = \<lparr>is_head = False, behind = 0, ahead = 0, branch_type = [],
               full_branch_name = [], branch_shorthand = []\<rparr>"

definition dir :: "string \<Rightarrow> branch_tree list \<Rightarrow> branch_tree" where
  "dir txt cs = BranchTree txt cs no_info"

definition snapshot :: "branch_tree list \<Rightarrow> branch_info_list" where
  "snapshot locals =
     \<lparr>local_branch_info_tree = dir [] locals,
      remote_branch_info_tree = dir [] [],
      tag_branch_info_tree = dir [] []\<rparr>"

text \<open>The page with three empty, collapsed tree views.\<close>

definition empty_container :: container where
  "empty_container = \<lparr>active_tree = False, rotated_caret = False, content = []\<rparr>"

definition startup_document :: document where
  "startup_document =
     \<lparr>localBranches = empty_container, remoteBranches = empty_container, tags = empty_container\<rparr>"

text \<open>Local branches \<open>x/1\<close> and \<open>y/1\<close>.\<close>

definition xy_snapshot :: branch_info_list where
  "xy_snapshot =
     snapshot [dir ''x'' [leaf ''1'' ''refs/heads/x/1''], dir ''y'' [leaf ''1'' ''refs/heads/y/1'']]"

text \<open>The items rendered for trees with plain names.\<close>

definition rendered :: "branch_tree list \<Rightarrow> string \<Rightarrow> view list" where
  "rendered cs parentTxt =
     (case buildBranchResultHTML cs parentTxt of Some items \<Rightarrow> items | None \<Rightarrow> [])"

text \<open>The page after rendering the single local branch \<open>x,#localBranches-y/z\<close> (a valid
  ref name) and a click on the header of its directory.\<close>

definition comma_document :: document where
  "comma_document =
     \<lparr>localBranches =
        \<lparr>active_tree = False, rotated_caret = False,
         content = map togglerClick
           (rendered
              [dir ''x,#localBranches-y'' [leaf ''z'' ''refs/heads/x,#localBranches-y/z'']]
              ''localBranches'')\<rparr>,
      remoteBranches = empty_container, tags = empty_container\<rparr>"

text \<open>The page with \<open>Local Branches\<close> open, rendering \<open>main\<close>, \<open>feature/a\<close>, \<open>feature/b\<close> and
  \<open>release/v1/hotfix\<close>, after clicks on the headers of \<open>feature\<close> and \<open>release\<close>; and the
  next snapshot, in which only \<open>main\<close> and \<open>feature/a\<close> are left.\<close>

definition feature_document :: document where
  "feature_document =
     \<lparr>localBranches =
        \<lparr>active_tree = True, rotated_caret = True,
         content =
           (case rendered
                   [leaf ''main'' ''refs/heads/main'',
                    dir ''feature'' [leaf ''a'' ''refs/heads/feature/a'',
                                     leaf ''b'' ''refs/heads/feature/b''],
                    dir ''release'' [dir ''v1'' [leaf ''hotfix'' ''refs/heads/release/v1/hotfix'']]]
                   ''localBranches'' of
              [m, f, r] \<Rightarrow> [m, togglerClick f, togglerClick r]
            | vs \<Rightarrow> vs)\<rparr>,
      remoteBranches = empty_container, tags = empty_container\<rparr>"

definition feature_snapshot :: branch_info_list where
  "feature_snapshot =
     snapshot [leaf ''main'' ''refs/heads/main'', dir ''feature'' [leaf ''a'' ''refs/heads/feature/a'']]"

text \<open>Local branches \<open>main\<close>, \<open>feature/a\<close>, \<open>feature/b\<close> and \<open>release/v1/hotfix\<close>.\<close>

definition release_tree :: "branch_tree list" where
  "release_tree =
     [leaf ''main'' ''refs/heads/main'',
      dir ''feature'' [leaf ''a'' ''refs/heads/feature/a'', leaf ''b'' ''refs/heads/feature/b''],
      dir ''release'' [dir ''v1'' [leaf ''hotfix'' ''refs/heads/release/v1/hotfix'']]]"

text \<open>Local branches \<open>a-b/x\<close> and \<open>a/b/y\<close>.\<close>

definition collision_tree :: "branch_tree list" where
  "collision_tree =
     [dir ''a-b'' [leaf ''x'' ''refs/heads/a-b/x''],
      dir ''a'' [dir ''b'' [leaf ''y'' ''refs/heads/a/b/y'']]]"

text \<open>The page right after \<open>run()\<close> with every text field empty and every check box
  unchecked.\<close>

definition blank_page :: main_state where
  "blank_page = initial (\<lambda>_. []) (\<lambda>_. False)"

section \<open>Properties of the activity counter\<close>

lemma addProcessCount_simps:
  "processCount (addProcessCount st) = processCount st + 1"
  "spinnerVisible (addProcessCount st) = True"
  "effects (addProcessCount st) = effects st @ [JShow ''mainSpinner'']"
  "vals (addProcessCount st) = vals st"
  "checked (addProcessCount st) = checked st"
  by (simp_all add: addProcessCount_def show_spinner_def)

lemma removeProcessCount_count:
  "processCount (removeProcessCount st) = (if processCount st \<le> 1 then 0 else processCount st - 1)"
  by (simp add: removeProcessCount_def hide_spinner_def Let_def)

lemma removeProcessCount_effects:
  "effects (removeProcessCount st) =
     (if processCount st \<le> 1 then effects st @ [JHide ''mainSpinner''] else effects st)"
  by (simp add: removeProcessCount_def hide_spinner_def Let_def)

lemma removeProcessCount_spinner:
  "spinnerVisible (removeProcessCount st) = (if processCount st \<le> 1 then False else spinnerVisible st)"
  by (simp add: removeProcessCount_def hide_spinner_def Let_def)

lemma removeProcessCount_fields:
  "vals (removeProcessCount st) = vals st"
  "checked (removeProcessCount st) = checked st"
  by (simp_all add: removeProcessCount_def hide_spinner_def Let_def)

lemma do_call_nonneg: "0 \<le> processCount st \<Longrightarrow> 0 \<le> processCount (do_call c st)"
  by (cases c) (simp_all add: addProcessCount_simps removeProcessCount_count)

lemma do_call_spinner:
  assumes "0 \<le> processCount st" "spinnerVisible st \<longleftrightarrow> 0 < processCount st"
  shows "spinnerVisible (do_call c st) \<longleftrightarrow> 0 < processCount (do_call c st)"
  using assms
  by (cases c)
     (auto simp: addProcessCount_simps removeProcessCount_count removeProcessCount_spinner)

lemma run_calls_invariant:
  assumes "0 \<le> processCount st" "spinnerVisible st \<longleftrightarrow> 0 < processCount st"
  shows "0 \<le> processCount (run_calls cs st) \<and>
         (spinnerVisible (run_calls cs st) \<longleftrightarrow> 0 < processCount (run_calls cs st))"
  using assms
proof (induction cs arbitrary: st)
  case Nil
  then show ?case by simp
next
  case (Cons c cs)
  show ?case
    unfolding run_calls.simps
    by (rule Cons.IH) (use Cons.prems do_call_nonneg do_call_spinner in blast)+
qed

lemma run_calls_count:
  assumes "0 \<le> processCount st"
  shows "processCount (run_calls cs st) = processCount st + starts cs - ends cs + ends_at_zero cs st"
  using assms
proof (induction cs arbitrary: st)
  case Nil
  then show ?case by (simp add: starts_def ends_def)
next
  case (Cons c cs)
  have nn: "0 \<le> processCount (do_call c st)"
    using Cons.prems by (rule do_call_nonneg)
  show ?case
  proof (cases c)
    case Start
    then show ?thesis
      using Cons.IH [OF nn] Cons.prems
      by (simp add: starts_def ends_def addProcessCount_simps)
  next
    case End
    then show ?thesis
      using Cons.IH [OF nn] Cons.prems
      by (simp add: starts_def ends_def removeProcessCount_count)
  qed
qed

lemma ends_at_zero_nonneg: "0 \<le> ends_at_zero cs st"
  by (induction cs arbitrary: st) simp_all

lemma run_calls_idle:
  assumes "0 \<le> processCount st"
  shows "idle_signals (run_calls cs st) = idle_signals st + drops_to_zero cs st + ends_at_zero cs st"
  using assms
proof (induction cs arbitrary: st)
  case Nil
  then show ?case by simp
next
  case (Cons c cs)
  have nn: "0 \<le> processCount (do_call c st)"
    using Cons.prems by (rule do_call_nonneg)
  show ?case
  proof (cases c)
    case Start
    then show ?thesis
      using Cons.IH [OF nn] Cons.prems
      by (simp add: idle_signals_def addProcessCount_simps)
  next
    case End
    then show ?thesis
      using Cons.IH [OF nn] Cons.prems
      by (auto simp: idle_signals_def removeProcessCount_count removeProcessCount_effects)
  qed
qed

lemma initial_simps:
  "processCount (initial vs cs) = 0"
  "spinnerVisible (initial vs cs) = False"
  "effects (initial vs cs) = []"
  by (simp_all add: initial_def)


lemma blank_page_simps:
  "processCount blank_page = 0"
  "spinnerVisible blank_page = False"
  "effects blank_page = []"
  by (simp_all add: blank_page_def initial_def)

text \<open>
  Claim C1, as the specification states it: for every interleaving of N \<open>start()\<close> and M
  \<open>end()\<close> calls the final counter is \<open>max(0, N - M)\<close>, and the spinner is hidden exactly
  once per transition into 0 from a positive value.  The code clamps at every single
  call, not at the end of the run: after \<open>end(); start()\<close> the counter is 1, not
  \<open>max(0, 1 - 1) = 0\<close>, and the \<open>end()\<close> issued at 0 has hidden the spinner although the
  counter never left 0.
\<close>

theorem C1_counterexample:
  "processCount (run_calls [End, Start] blank_page) \<noteq> max 0 (starts [End, Start] - ends [End, Start])
   \<and> idle_signals (run_calls [End, Start] blank_page) \<noteq> drops_to_zero [End, Start] blank_page"
  by (simp add: starts_def ends_def idle_signals_def blank_page_simps
        addProcessCount_simps removeProcessCount_count removeProcessCount_effects)

text \<open>
  Claim C1, amended: from the initial state, after any interleaving of N \<open>start()\<close> and M
  \<open>end()\<close> calls the counter is N - M plus the number of \<open>end()\<close> calls that arrived while
  it was 0; so it is at least \<open>max(0, N - M)\<close>, and equal to it when no \<open>end()\<close> arrived
  at 0.  The spinner is hidden once per \<open>end()\<close> that leaves the counter at 0: once per
  transition into 0 from a positive value and once per \<open>end()\<close> that arrived at 0.
\<close>

theorem C1_activity_counter_final_value:
  "processCount (run_calls cs (initial vs chk))
     = starts cs - ends cs + ends_at_zero cs (initial vs chk)
   \<and> max 0 (starts cs - ends cs) \<le> processCount (run_calls cs (initial vs chk))
   \<and> idle_signals (run_calls cs (initial vs chk))
     = drops_to_zero cs (initial vs chk) + ends_at_zero cs (initial vs chk)"
proof -
  let ?s = "initial vs chk"
  have z: "0 \<le> processCount ?s" by (simp add: initial_simps)
  have c: "processCount (run_calls cs ?s) = starts cs - ends cs + ends_at_zero cs ?s"
    using run_calls_count [OF z, of cs] by (simp add: initial_simps)
  have n: "0 \<le> processCount (run_calls cs ?s)"
    using run_calls_invariant [of ?s cs] by (simp add: initial_simps)
  have m: "max 0 (starts cs - ends cs) \<le> processCount (run_calls cs ?s)"
    using c n ends_at_zero_nonneg [of cs ?s] by simp
  have i: "idle_signals (run_calls cs ?s) = drops_to_zero cs ?s + ends_at_zero cs ?s"
    using run_calls_idle [OF z, of cs] by (simp add: idle_signals_def initial_simps)
  from c m i show ?thesis by blast
qed

theorem C1_activity_counter_final_value_witness:
  "processCount (run_calls [Start, End, End, Start, Start] blank_page) = 2
   \<and> starts [Start, End, End, Start, Start] - ends [Start, End, End, Start, Start] = 1
   \<and> ends_at_zero [Start, End, End, Start, Start] blank_page = 1
   \<and> drops_to_zero [Start, End, End, Start, Start] blank_page = 1
   \<and> idle_signals (run_calls [Start, End, End, Start, Start] blank_page) = 2"
  using C1_activity_counter_final_value
          [of "[Start, End, End, Start, Start]" "\<lambda>_. []" "\<lambda>_. False"]
  by (simp add: blank_page_def starts_def ends_def initial_simps
        addProcessCount_simps removeProcessCount_count)

text \<open>
  Claim C6, as the specification states it: the counter is never negative, an \<open>end()\<close>
  without a matching \<open>start()\<close> is clamped to 0, and such a clamped decrement does not
  signal idle again.  In \<open>removeProcessCount\<close> the clamp sits inside the branch that
  hides the spinner, so the clamped call does hide it again: on the initial state,
  where the counter is 0 and the spinner hidden, \<open>end()\<close> adds one more hide.
\<close>

theorem C6_counterexample:
  "processCount blank_page = 0
   \<and> idle_signals (removeProcessCount blank_page) \<noteq> idle_signals blank_page"
  by (simp add: idle_signals_def blank_page_simps removeProcessCount_effects)

text \<open>
  Claim C6, amended: from the initial state every sequence of \<open>start()\<close> and \<open>end()\<close>
  calls leaves the counter non-negative, and the spinner visible exactly when the
  counter is positive; each single call preserves non-negativity; an \<open>end()\<close> issued at
  0 leaves the counter at 0 and hides the (already hidden) spinner once more.
\<close>

theorem C6_counter_never_negative:
  "0 \<le> processCount (run_calls cs (initial vs chk))
   \<and> (spinnerVisible (run_calls cs (initial vs chk))
        \<longleftrightarrow> 0 < processCount (run_calls cs (initial vs chk)))
   \<and> (0 \<le> processCount st \<longrightarrow>
        0 \<le> processCount (addProcessCount st) \<and> 0 \<le> processCount (removeProcessCount st))
   \<and> (processCount st = 0 \<longrightarrow>
        processCount (removeProcessCount st) = 0
        \<and> \<not> spinnerVisible (removeProcessCount st)
        \<and> effects (removeProcessCount st) = effects st @ [JHide ''mainSpinner''])"
proof -
  have a: "0 \<le> processCount (run_calls cs (initial vs chk))
           \<and> (spinnerVisible (run_calls cs (initial vs chk))
                \<longleftrightarrow> 0 < processCount (run_calls cs (initial vs chk)))"
    by (rule run_calls_invariant) (simp_all add: initial_simps)
  have b: "0 \<le> processCount st \<longrightarrow>
        0 \<le> processCount (addProcessCount st) \<and> 0 \<le> processCount (removeProcessCount st)"
    by (simp add: addProcessCount_simps removeProcessCount_count)
  have c: "processCount st = 0 \<longrightarrow>
        processCount (removeProcessCount st) = 0
        \<and> \<not> spinnerVisible (removeProcessCount st)
        \<and> effects (removeProcessCount st) = effects st @ [JHide ''mainSpinner'']"
    by (simp add: removeProcessCount_count removeProcessCount_spinner removeProcessCount_effects)
  from a b c show ?thesis by blast
qed

theorem C6_counter_never_negative_witness:
  "0 \<le> processCount (run_calls [End, Start, End, End] blank_page)
   \<and> \<not> spinnerVisible (run_calls [End, Start, End, End] blank_page)
   \<and> processCount blank_page = 0
   \<and> processCount (removeProcessCount blank_page) = 0
   \<and> effects (removeProcessCount blank_page) = [JHide ''mainSpinner'']"
  using C6_counter_never_negative [of "[End, Start, End, End]" "\<lambda>_. []" "\<lambda>_. False" blank_page]
  by (simp add: blank_page_def initial_simps addProcessCount_simps removeProcessCount_count)

section \<open>Properties of the listeners and handlers\<close>

lemma emit_simps:
  "processCount (emit n p st) = processCount st"
  "spinnerVisible (emit n p st) = spinnerVisible st"
  "effects (emit n p st) = effects st @ [Emit n p]"
  "vals (emit n p st) = vals st"
  "checked (emit n p st) = checked st"
  by (simp_all add: emit_def)

lemma alert_simps:
  "processCount (alert m st) = processCount st"
  "spinnerVisible (alert m st) = spinnerVisible st"
  "effects (alert m st) = effects st @ [Alert m]"
  by (simp_all add: alert_def)

lemma modal_hide_simps:
  "processCount (modal_hide i st) = processCount st"
  "effects (modal_hide i st) = effects st @ [ModalHide i]"
  by (simp_all add: modal_hide_def)

lemma set_val_simps:
  "processCount (set_val i v st) = processCount st"
  "effects (set_val i v st) = effects st"
  by (simp_all add: set_val_def)

text \<open>
  Claim C7: the listener for the backend's \<open>error\<close> event calls \<open>removeProcessCount\<close>
  first and shows the message afterwards: the alert is the last entry of the log,
  behind everything the decrement did, and the counter is the decremented one.  With a
  single command in flight (counter at most 1) the spinner is hidden before the alert
  and the counter is back at 0, so the busy indicator is not left on.
\<close>

theorem C7_error_event_ends_before_alert:
  "effects (on_error msg st) = effects (removeProcessCount st) @ [Alert msg]
   \<and> processCount (on_error msg st) = processCount (removeProcessCount st)
   \<and> (processCount st \<le> 1 \<longrightarrow>
        effects (on_error msg st) = effects st @ [JHide ''mainSpinner'', Alert msg]
        \<and> \<not> spinnerVisible (on_error msg st)
        \<and> processCount (on_error msg st) = 0)"
  by (simp add: on_error_def alert_simps removeProcessCount_count
        removeProcessCount_effects removeProcessCount_spinner)

theorem C7_error_event_ends_before_alert_witness:
  "processCount (handle_click FetchBtn blank_page) = 1
   \<and> spinnerVisible (handle_click FetchBtn blank_page)
   \<and> effects (on_error ''no remote'' (handle_click FetchBtn blank_page))
       = [JShow ''mainSpinner'', Emit ''fetch'' JUndefined, JHide ''mainSpinner'', Alert ''no remote'']
   \<and> \<not> spinnerVisible (on_error ''no remote'' (handle_click FetchBtn blank_page))
   \<and> processCount (on_error ''no remote'' (handle_click FetchBtn blank_page)) = 0"
  using C7_error_event_ends_before_alert [of "''no remote''" "handle_click FetchBtn blank_page"]
  by (simp add: emit_simps addProcessCount_simps blank_page_simps removeProcessCount_count
        removeProcessCount_effects)

text \<open>
  Claim C3, as the specification states it: every handler that emits one of the
  commands stage, unstage, commit, push, fetch, pull, checkout, branch or delete calls
  \<open>addProcessCount\<close> in the same step.  The stage and unstage buttons only emit: the
  counter stays where it was and the spinner is not shown.  (Their completion arrives
  as \<open>update_changes\<close>, whose listener does not call \<open>removeProcessCount\<close> either.)
\<close>

theorem C3_counterexample:
  "new_effects (StageBtn (JObj [(''path'', JStr ''a.txt''), (''status'', JNum 3)])) blank_page
     = [Emit ''stage'' (JObj [(''path'', JStr ''a.txt''), (''status'', JNum 3)])]
   \<and> processCount (handle_click (StageBtn (JObj [(''path'', JStr ''a.txt''), (''status'', JNum 3)]))
        blank_page) = processCount blank_page
   \<and> \<not> spinnerVisible
          (handle_click (StageBtn (JObj [(''path'', JStr ''a.txt''), (''status'', JNum 3)])) blank_page)"
  by (simp add: new_effects_def emit_simps blank_page_simps)

text \<open>
  Claim C3, amended: a handler that emits commit, commit-push, push, fetch, pull,
  checkout, checkout-remote, branch, delete-local-branch, delete-remote-branch or
  delete-tag has called \<open>addProcessCount\<close> immediately before the emit, in the same
  synchronous step: the counter is one higher and the handler's first two effects are
  showing the spinner and the emit.  The handlers of \<open>stage\<close> and \<open>unstage\<close> emit
  without touching the counter or the spinner.  (Of the two commands outside the
  specification's list, \<open>save-preferences\<close> is bracketed like the first group and, in
  this revision, \<open>save-credentials\<close> is not.)
\<close>

theorem C3_outbound_commands_bracketing:
  assumes "Emit name payload \<in> set (new_effects c st)"
  shows "if name \<in> {''stage'', ''unstage'', ''save-credentials''}
         then processCount (handle_click c st) = processCount st
              \<and> hd (new_effects c st) = Emit name payload
              \<and> JShow ''mainSpinner'' \<notin> set (new_effects c st)
         else processCount (handle_click c st) = processCount st + 1
              \<and> take 2 (new_effects c st) = [JShow ''mainSpinner'', Emit name payload]"
  using assms
  by (cases c)
     (auto simp: new_effects_def Let_def emit_simps addProcessCount_simps alert_simps
        modal_hide_simps set_val_simps split: if_splits)

theorem C3_outbound_commands_bracketing_witness:
  "Emit ''pull'' JUndefined \<in> set (new_effects PullBtn blank_page)
   \<and> processCount (handle_click PullBtn blank_page) = 1
   \<and> take 2 (new_effects PullBtn blank_page) = [JShow ''mainSpinner'', Emit ''pull'' JUndefined]"
proof -
  have h: "Emit ''pull'' JUndefined \<in> set (new_effects PullBtn blank_page)"
    by (simp add: new_effects_def emit_simps addProcessCount_simps blank_page_simps)
  show ?thesis
    using h C3_outbound_commands_bracketing [OF h]
    by (simp add: blank_page_simps)
qed

section \<open>Properties of the text fitter\<close>

lemma shrink_fits: "m t < w \<Longrightarrow> shrink m w t = t"
  by (simp add: shrink.simps [of m w t])

lemma shrink_result: "shrink m w t = r \<Longrightarrow> m r < w \<or> r = ''...''"
proof (induction m w t rule: shrink.induct)
  case (1 m w t)
  show ?case
  proof (cases "w \<le> m t")
    case True
    note ge = this
    show ?thesis
    proof (cases "drop 4 t = []")
      case True
      with ge "1.prems" show ?thesis by (simp add: shrink.simps [of m w t])
    next
      case False
      with ge "1.prems" have "shrink m w (''...'' @ drop 4 t) = r"
        by (simp add: shrink.simps [of m w t])
      with "1.IH" [OF ge refl] False show ?thesis by simp
    qed
  next
    case False
    with "1.prems" show ?thesis by (simp add: shrink.simps [of m w t])
  qed
qed

lemma shrink_suffix:
  assumes "k \<le> length s"
  shows "\<exists>j. k \<le> j \<and> j \<le> length s
           \<and> shrink m w (''...'' @ drop k s) = ''...'' @ drop j s
           \<and> (\<forall>i. k \<le> i \<and> i < j \<longrightarrow> w \<le> m (''...'' @ drop i s))
           \<and> (j < length s \<longrightarrow> m (''...'' @ drop j s) < w)"
  using assms
proof (induction "length s - k" arbitrary: k)
  case 0
  then have k: "k = length s" by simp
  have "shrink m w ''...'' = ''...''"
    by (simp add: shrink.simps [of m w "''...''"])
  with k show ?case by auto
next
  case (Suc n)
  then have lt: "k < length s" by simp
  let ?t = "''...'' @ drop k s"
  show ?case
  proof (cases "w \<le> m ?t")
    case False
    then have "shrink m w ?t = ?t" by (simp add: shrink_fits)
    with False lt show ?thesis by (intro exI [of _ k]) auto
  next
    case True
    note ge = this
    have step: "''...'' @ drop 4 ?t = ''...'' @ drop (Suc k) s" by simp
    show ?thesis
    proof (cases "Suc k = length s")
      case True
      then have "drop (Suc k) s = []" by simp
      with ge have "shrink m w ?t = ''...'' @ drop (length s) s"
        by (subst shrink.simps) simp
      moreover have "\<forall>i. k \<le> i \<and> i < length s \<longrightarrow> w \<le> m (''...'' @ drop i s)"
      proof (intro allI impI)
        fix i assume "k \<le> i \<and> i < length s"
        with True have "i = k" by linarith
        with ge show "w \<le> m (''...'' @ drop i s)" by simp
      qed
      ultimately show ?thesis using lt by (intro exI [of _ "length s"]) auto
    next
      case False
      with lt have ne: "drop (Suc k) s \<noteq> []" by simp
      have eq: "shrink m w ?t = shrink m w (''...'' @ drop (Suc k) s)"
        using ge ne by (subst shrink.simps) (simp add: Let_def)
      have "n = length s - Suc k" using Suc.hyps(2) by simp
      moreover have "Suc k \<le> length s" using lt by simp
      ultimately obtain j where j: "Suc k \<le> j" "j \<le> length s"
          "shrink m w (''...'' @ drop (Suc k) s) = ''...'' @ drop j s"
          "\<forall>i. Suc k \<le> i \<and> i < j \<longrightarrow> w \<le> m (''...'' @ drop i s)"
          "j < length s \<longrightarrow> m (''...'' @ drop j s) < w"
        using Suc.hyps(1) [of "Suc k"] by blast
      have "\<forall>i. k \<le> i \<and> i < j \<longrightarrow> w \<le> m (''...'' @ drop i s)"
      proof (intro allI impI)
        fix i assume "k \<le> i \<and> i < j"
        then consider "i = k" | "Suc k \<le> i \<and> i < j" by linarith
        then show "w \<le> m (''...'' @ drop i s)"
          using ge j(4) by cases auto
      qed
      with j eq show ?thesis by (intro exI [of _ j]) auto
    qed
  qed
qed

lemma fit_unchanged: "\<not> (0 < m s \<and> 0 < w \<and> w \<le> m s) \<Longrightarrow> fit m w s = s"
  by (auto simp: fit_def shrink_fits)

lemma fit_truncated:
  assumes "0 < m s" "0 < w" "w \<le> m s"
  shows "\<exists>k\<le>length s. fit m w s = ''...'' @ drop k s
           \<and> (\<forall>i<k. w \<le> m (''...'' @ drop i s))
           \<and> (k < length s \<longrightarrow> m (fit m w s) < w)"
proof -
  have f: "fit m w s = shrink m w (''...'' @ drop 0 s)"
    using assms by (simp add: fit_def)
  obtain j where j: "j \<le> length s" "shrink m w (''...'' @ drop 0 s) = ''...'' @ drop j s"
      "\<forall>i. 0 \<le> i \<and> i < j \<longrightarrow> w \<le> m (''...'' @ drop i s)"
      "j < length s \<longrightarrow> m (''...'' @ drop j s) < w"
    using shrink_suffix [of 0 s m w] by auto
  show ?thesis
    using j f by (intro exI [of _ j]) auto
qed

lemma shrink_dots:
  assumes mono: "\<And>xs ys. m ys \<le> m (xs @ ys)" and ge: "w \<le> m ''...''"
  shows "shrink m w ''......'' = ''...''"
proof -
  have 6: "w \<le> m ''......''" using mono [of "''...''" "''...''"] ge by simp
  have 5: "w \<le> m ''.....''" using mono [of "''...''" "''..''"] ge by simp
  have 4: "w \<le> m ''....''" using mono [of "''...''" "''.''"] ge by simp
  have "shrink m w ''......'' = shrink m w ''.....''"
    using 6 by (subst shrink.simps) simp
  also have "\<dots> = shrink m w ''....''"
    using 5 by (subst shrink.simps) simp
  also have "\<dots> = ''...''"
    using 4 by (subst shrink.simps) simp
  finally show ?thesis .
qed

lemma fit_idem:
  assumes mono: "\<And>xs ys. m ys \<le> m (xs @ ys)"
  shows "fit m w (fit m w s) = fit m w s"
proof (cases "0 < m s \<and> 0 < w \<and> w \<le> m s")
  case False
  then have "fit m w s = s" by (rule fit_unchanged)
  then show ?thesis by simp
next
  case True
  then have f: "fit m w s = shrink m w (''...'' @ s)"
    by (simp add: fit_def)
  from shrink_result [OF f [symmetric]]
  show ?thesis
  proof
    assume "m (fit m w s) < w"
    then show ?thesis by (intro fit_unchanged) simp
  next
    assume d: "fit m w s = ''...''"
    show ?thesis
    proof (cases "w \<le> m ''...''")
      case False
      with d show ?thesis by (simp add: fit_unchanged)
    next
      case ge: True
      with True have "0 < m ''...''" by linarith
      with ge True have "fit m w ''...'' = shrink m w ''......''"
        by (simp add: fit_def)
      with d shrink_dots [OF mono ge] show ?thesis by simp
    qed
  qed
qed

lemma fit_px7_42: "fit px7 42 ''abcdefgh'' = ''...gh''"
  by (simp add: fit_def px7_def shrink.simps)

lemma fit_px7_10: "fit px7 10 ''abcd'' = ''...''"
  by (simp add: fit_def px7_def shrink.simps)

lemma px7_suffix: "px7 ys \<le> px7 (xs @ ys)"
  by (simp add: px7_def)

text \<open>
  Claim C2, as the specification states it: with a container width of 0 or less the
  fit terminates and renders the bare ellipsis \<open>...\<close>, for every input string.  The
  code guards the whole truncation with \<open>shrunkenTxtContainer.clientWidth > 0\<close>: at
  width 0 the three-character text \<open>abc\<close> is left as it is.
\<close>

theorem C2_counterexample:
  "fit px7 0 ''abc'' = ''abc'' \<and> fit px7 0 ''abc'' \<noteq> ''...''"
  by (simp add: fit_def)

text \<open>
  Claim C2, amended: for every input string and every width function, when the
  container width is 0 or less the fit terminates (\<open>fit\<close> and the loop \<open>shrink\<close> are total
  functions) and the rendered text is the original text, unchanged; so
  \<open>truncateFilePathText\<close> resets every label in such a container to its original text.
\<close>

theorem C2_nonpositive_width_keeps_text:
  assumes "w \<le> 0" and "\<forall>txt\<in>set filePathText. containerWidth txt \<le> 0"
  shows "fit clientWidth w original = original
         \<and> map textContent (truncateFilePathText clientWidth filePathText)
             = map data_original_txt filePathText"
proof -
  have f: "fit clientWidth v t = t" if "v \<le> 0" for v t
    using that by (simp add: fit_def)
  show ?thesis
    using assms by (simp add: f truncateFilePathText_def)
qed

theorem C2_nonpositive_width_keeps_text_witness:
  "fit px7 0 [] = [] \<and> fit px7 (- 5) ''ab'' = ''ab''
   \<and> map textContent
        (truncateFilePathText px7
           [\<lparr>data_original_txt = ''src/main.rs'', textContent = ''...n.rs'', containerWidth = 0\<rparr>])
       = [''src/main.rs'']"
proof -
  let ?l = "\<lparr>data_original_txt = ''src/main.rs'', textContent = ''...n.rs'', containerWidth = 0\<rparr>"
  have a: "(0::int) \<le> 0" by simp
  have b: "(- 5::int) \<le> 0" by simp
  have c: "\<forall>txt\<in>set [?l]. containerWidth txt \<le> 0" by simp
  from C2_nonpositive_width_keeps_text [OF a c, of px7 "[]"]
       C2_nonpositive_width_keeps_text [OF b c, of px7 "''ab''"]
  show ?thesis by simp
qed

text \<open>
  Claim C4, as the specification states it: the code implements exactly the algorithm
  worded there (\<open>spec_fit\<close>).  It does not.  At container width 0 the worded algorithm
  truncates down to the ellipsis, the code leaves the text alone.  And where the code
  does truncate, \<open>substring(4)\<close> is applied to the text that already starts with the
  ellipsis, so each round removes the ellipsis and one character of the path, not four:
  in a container of 42 pixels with 7 pixels per character, \<open>abcdefgh\<close> becomes \<open>...gh\<close>,
  where removing four characters at a time ends at the bare ellipsis.
\<close>

theorem C4_counterexample:
  "fit px7 0 ''abc'' = ''abc'' \<and> spec_fit px7 0 ''abc'' = ''...''
   \<and> fit px7 42 ''abcdefgh'' = ''...gh'' \<and> spec_fit px7 42 ''abcdefgh'' = ''...''
   \<and> fit px7 0 ''abc'' \<noteq> spec_fit px7 0 ''abc''
   \<and> fit px7 42 ''abcdefgh'' \<noteq> spec_fit px7 42 ''abcdefgh''"
  by (simp add: fit_def spec_fit_def px7_def shrink.simps spec_shrink.simps)

text \<open>
  Claim C4, amended: the rendered text is reset to the original text.  It is left
  unchanged when the measured width of the original text is 0 or less, or the
  container width is 0 or less, or the measured width is below the container width.
  Otherwise the ellipsis is prepended and, while the measured width is not below the
  container width, the first 4 characters of the rendered text (the ellipsis and one
  character of the path) are replaced by the ellipsis, stopping unconditionally when
  the text is the bare ellipsis.  So the result is the ellipsis followed by the
  original text without its first \<open>k\<close> characters, for the least \<open>k\<close> at which the
  rendering measures below the container width, or the bare ellipsis if there is none.
\<close>

theorem C4_fit_characterisation:
  "(0 < m s \<and> 0 < w \<and> w \<le> m s \<longrightarrow>
      (\<exists>k\<le>length s. fit m w s = ''...'' @ drop k s
          \<and> (\<forall>i<k. w \<le> m (''...'' @ drop i s))
          \<and> (k < length s \<longrightarrow> m (fit m w s) < w)))
   \<and> (\<not> (0 < m s \<and> 0 < w \<and> w \<le> m s) \<longrightarrow> fit m w s = s)"
  using fit_truncated [of m s w] fit_unchanged [of m s w] by blast

theorem C4_fit_characterisation_witness:
  "0 < px7 ''abcdefgh'' \<and> (0::int) < 42 \<and> 42 \<le> px7 ''abcdefgh''
   \<and> fit px7 42 ''abcdefgh'' = ''...'' @ drop 6 ''abcdefgh''
   \<and> (\<exists>k\<le>length ''abcdefgh''. fit px7 42 ''abcdefgh'' = ''...'' @ drop k ''abcdefgh''
          \<and> (\<forall>i<k. 42 \<le> px7 (''...'' @ drop i ''abcdefgh''))
          \<and> (k < length ''abcdefgh'' \<longrightarrow> px7 (fit px7 42 ''abcdefgh'') < 42))
   \<and> \<not> (0 < px7 [] \<and> (0::int) < 42 \<and> 42 \<le> px7 []) \<and> fit px7 42 [] = []"
proof -
  have h: "0 < px7 ''abcdefgh'' \<and> (0::int) < 42 \<and> 42 \<le> px7 ''abcdefgh''"
    by (simp add: px7_def)
  have n: "\<not> (0 < px7 [] \<and> (0::int) < 42 \<and> 42 \<le> px7 [])"
    by (simp add: px7_def)
  from C4_fit_characterisation [of px7 "''abcdefgh''" 42] h
  have e: "\<exists>k\<le>length ''abcdefgh''. fit px7 42 ''abcdefgh'' = ''...'' @ drop k ''abcdefgh''
          \<and> (\<forall>i<k. 42 \<le> px7 (''...'' @ drop i ''abcdefgh''))
          \<and> (k < length ''abcdefgh'' \<longrightarrow> px7 (fit px7 42 ''abcdefgh'') < 42)"
    by blast
  from C4_fit_characterisation [of px7 "[]" 42] n
  have u: "fit px7 42 [] = []" by blast
  have v: "fit px7 42 ''abcdefgh'' = ''...'' @ drop 6 ''abcdefgh''"
    by (simp add: fit_px7_42)
  from h n e u v show ?thesis by blast
qed

text \<open>
  Claim C5, as the specification states it: \<open>fit\<close> is idempotent for every string, every
  measure function and every container width.  For an arbitrary width function it is
  not: the second run prepends the ellipsis to the bare ellipsis, and if six dots
  happen to measure below the container width the loop stops there at once.
\<close>

theorem C5_counterexample:
  "fit six_dots_narrow 5 ''abcd'' = ''...''
   \<and> fit six_dots_narrow 5 (fit six_dots_narrow 5 ''abcd'') = ''......''
   \<and> fit six_dots_narrow 5 (fit six_dots_narrow 5 ''abcd'') \<noteq> fit six_dots_narrow 5 ''abcd''"
  by (simp add: fit_def six_dots_narrow_def shrink.simps)

text \<open>
  Claim C5, amended: \<open>fit\<close> is idempotent for every string and every container width,
  for every measure function under which removing characters from the front of a text
  never makes it wider: \<open>fit(fit(s, measure, w), measure, w) = fit(s, measure, w)\<close>.
\<close>

theorem C5_fit_idempotent:
  assumes "\<And>xs ys. m ys \<le> m (xs @ ys)"
  shows "fit m w (fit m w s) = fit m w s"
  using assms by (rule fit_idem)

theorem C5_fit_idempotent_witness:
  "(\<forall>xs ys. px7 ys \<le> px7 (xs @ ys))
   \<and> fit px7 42 (fit px7 42 ''abcdefgh'') = fit px7 42 ''abcdefgh''
   \<and> fit px7 42 ''abcdefgh'' = ''...gh''
   \<and> fit px7 10 (fit px7 10 ''abcd'') = fit px7 10 ''abcd''
   \<and> fit px7 10 ''abcd'' = ''...''"
  using C5_fit_idempotent [of px7 42 "''abcdefgh''", OF px7_suffix]
        C5_fit_idempotent [of px7 10 "''abcd''", OF px7_suffix]
  by (simp add: px7_suffix fit_px7_42 fit_px7_10)

section \<open>Properties of the tree views\<close>

lemma path_id_Cons: "path_id c (t # ts) = path_id (c @ ''-'' @ t) ts"
  by (simp add: path_id_def)

lemma html_plain_append: "html_plain (xs @ ys) \<longleftrightarrow> html_plain xs \<and> html_plain ys"
  by (simp add: html_plain_def)

lemma html_plain_dash: "html_plain (CHR ''-'' # s) \<longleftrightarrow> html_plain s"
  by (simp add: html_plain_def html_plain_char_def)

lemma build_Some_collapsed:
  "buildBranchResultHTML cs p = Some vs \<Longrightarrow> active_ids_list vs = []"
  "build_child c p = Some v \<Longrightarrow> active_ids v = []"
proof (induction cs p and c p arbitrary: vs and v rule: buildBranchResultHTML_build_child.induct)
  case (1 parentTxt)
  then show ?case by simp
next
  case (2 child rest parentTxt)
  then show ?case by (auto split: option.splits)
next
  case (3 name cs bi parentTxt)
  then show ?case by (auto simp: Let_def split: if_splits option.splits)
qed

lemma build_Some_ids:
  "buildBranchResultHTML cs p = Some vs \<Longrightarrow> view_ids_list vs = map (path_id p) (interior_paths_list cs)"
  "build_child c p = Some v \<Longrightarrow> view_ids v = map (path_id p) (interior_paths c)"
proof (induction cs p and c p arbitrary: vs and v rule: buildBranchResultHTML_build_child.induct)
  case (1 parentTxt)
  then show ?case by simp
next
  case (2 child rest parentTxt)
  then show ?case by (auto split: option.splits)
next
  case (3 name cs bi parentTxt)
  show ?case
  proof (cases "length cs > 0")
    case False
    with "3.prems" show ?thesis by auto
  next
    case True
    with "3.prems" obtain nested where
      pl: "html_plain (parentTxt @ ''-'' @ name)" and
      n: "buildBranchResultHTML cs (parentTxt @ ''-'' @ name) = Some nested" and
      v: "v = Nested (parentTxt @ ''-'' @ name) False False name nested"
      by (auto simp: Let_def split: if_splits option.splits)
    from "3.IH" [OF True refl pl n]
    have "view_ids_list nested = map (path_id (parentTxt @ ''-'' @ name)) (interior_paths_list cs)" .
    with True v show ?thesis
      by (simp add: path_id_Cons comp_def) (simp add: path_id_def)
  qed
qed

lemma build_plain:
  "html_plain p \<Longrightarrow> plain_names cs \<Longrightarrow> \<exists>vs. buildBranchResultHTML cs p = Some vs"
  "html_plain p \<Longrightarrow> list_all (list_all html_plain) (interior_paths c) \<Longrightarrow> \<exists>v. build_child c p = Some v"
proof (induction cs p and c p rule: buildBranchResultHTML_build_child.induct)
  case (1 parentTxt)
  then show ?case by simp
next
  case (2 child rest parentTxt)
  from "2.prems" have c: "list_all (list_all html_plain) (interior_paths child)"
    and r: "plain_names rest"
    by (simp_all add: plain_names_def)
  from "2.IH"(1) [OF "2.prems"(1) c] obtain v where v: "build_child child parentTxt = Some v"
    by blast
  from "2.IH"(2) [OF v "2.prems"(1) r] obtain vs where "buildBranchResultHTML rest parentTxt = Some vs"
    by blast
  with v show ?case by simp
next
  case (3 name cs bi parentTxt)
  show ?case
  proof (cases "length cs > 0")
    case False
    then show ?thesis by simp
  next
    case True
    with "3.prems" have t: "html_plain name" and cs: "plain_names cs"
      by (auto simp: plain_names_def list_all_iff)
    from t "3.prems"(1) have pl: "html_plain (parentTxt @ ''-'' @ name)"
      by (simp add: html_plain_append html_plain_dash)
    from "3.IH" [OF True refl pl pl cs] obtain nested where
      "buildBranchResultHTML cs (parentTxt @ ''-'' @ name) = Some nested" by blast
    with True pl show ?thesis by (simp add: Let_def)
  qed
qed

lemma expand_all_view_ids:
  "view_ids (expand_all ids v) = view_ids v"
  "view_ids_list (expand_all_list ids vs) = view_ids_list vs"
  by (induction ids v and ids vs rule: expand_all_expand_all_list.induct) simp_all

lemma expand_all_active:
  "set (active_ids (expand_all ids v)) = set (active_ids v) \<union> (set ids \<inter> set (view_ids v))"
  "set (active_ids_list (expand_all_list ids vs))
     = set (active_ids_list vs) \<union> (set ids \<inter> set (view_ids_list vs))"
  by (induction ids v and ids vs rule: expand_all_expand_all_list.induct) auto

lemma expand_first_list_Cons:
  "expand_first_list i (x # xs) =
     (if snd (expand_first i x) then (fst (expand_first i x) # xs, True)
      else (fst (expand_first i x) # fst (expand_first_list i xs), snd (expand_first_list i xs)))"
  by (cases "expand_first i x"; cases "expand_first_list i xs") simp

lemma expand_first_Nested:
  "expand_first i (Nested j a r l xs) =
     (if j = i then (Nested j True True l xs, True)
      else (Nested j a r l (fst (expand_first_list i xs)), snd (expand_first_list i xs)))"
  by (cases "expand_first_list i xs") simp

lemma expand_first_found:
  "snd (expand_first i v) \<longleftrightarrow> i \<in> set (view_ids v)"
  "snd (expand_first_list i vs) \<longleftrightarrow> i \<in> set (view_ids_list vs)"
proof (induction i v and i vs rule: expand_first_expand_first_list.induct)
  case (1 i j a r l xs)
  then show ?case by (simp add: expand_first_Nested del: expand_first.simps)
next
  case (2 i t bs bi)
  then show ?case by simp
next
  case (3 i)
  then show ?case by simp
next
  case (4 i x xs)
  show ?case
  proof (cases "snd (expand_first i x)")
    case True
    with "4.IH"(1) show ?thesis
      by (simp add: expand_first_list_Cons del: expand_first_list.simps)
  next
    case False
    obtain x' where x': "expand_first i x = (x', False)"
      using False by (cases "expand_first i x") auto
    from "4.IH"(2) [OF x' [symmetric] refl] "4.IH"(1) False show ?thesis
      by (simp add: expand_first_list_Cons del: expand_first_list.simps)
  qed
qed

lemma expand_first_view_ids:
  "view_ids (fst (expand_first i v)) = view_ids v"
  "view_ids_list (fst (expand_first_list i vs)) = view_ids_list vs"
proof (induction i v and i vs rule: expand_first_expand_first_list.induct)
  case (1 i j a r l xs)
  then show ?case by (simp add: expand_first_Nested del: expand_first.simps)
next
  case (2 i t bs bi)
  then show ?case by simp
next
  case (3 i)
  then show ?case by simp
next
  case (4 i x xs)
  show ?case
  proof (cases "snd (expand_first i x)")
    case True
    with "4.IH"(1) show ?thesis
      by (simp add: expand_first_list_Cons del: expand_first_list.simps)
  next
    case False
    obtain x' where x': "expand_first i x = (x', False)"
      using False by (cases "expand_first i x") auto
    from "4.IH"(2) [OF x' [symmetric] refl] "4.IH"(1) False show ?thesis
      by (simp add: expand_first_list_Cons del: expand_first_list.simps)
  qed
qed

lemma expand_first_active:
  "set (active_ids (fst (expand_first i v)))
     = set (active_ids v) \<union> ({i} \<inter> set (view_ids v))"
  "set (active_ids_list (fst (expand_first_list i vs)))
     = set (active_ids_list vs) \<union> ({i} \<inter> set (view_ids_list vs))"
proof (induction i v and i vs rule: expand_first_expand_first_list.induct)
  case (1 i j a r l xs)
  show ?case
  proof (cases "j = i")
    case True
    then show ?thesis by auto
  next
    case False
    with "1.IH" show ?thesis
      by (simp add: expand_first_Nested del: expand_first.simps) blast
  qed
next
  case (2 i t bs bi)
  then show ?case by simp
next
  case (3 i)
  then show ?case by simp
next
  case (4 i x xs)
  show ?case
  proof (cases "snd (expand_first i x)")
    case True
    then have "i \<in> set (view_ids x)" by (simp add: expand_first_found)
    with True "4.IH"(1) show ?thesis
      by (simp add: expand_first_list_Cons del: expand_first_list.simps)
  next
    case False
    then have nx: "i \<notin> set (view_ids x)" by (simp add: expand_first_found)
    obtain x' where x': "expand_first i x = (x', False)"
      using False by (cases "expand_first i x") auto
    from "4.IH"(2) [OF x' [symmetric] refl] "4.IH"(1) False nx show ?thesis
      by (simp add: expand_first_list_Cons del: expand_first_list.simps) blast
  qed
qed


subsection \<open>The selector\<close>

lemma split_on_nonempty: "split_on c xs \<noteq> []"
  by (induction xs) (auto split: list.splits)

lemma split_on_none: "c \<notin> set p \<Longrightarrow> split_on c p = [p]"
  by (induction p) auto

lemma split_on_append: "c \<notin> set p \<Longrightarrow> split_on c (p @ c # rest) = p # split_on c rest"
  by (induction p) (auto simp: split_on_nonempty split: list.splits)

lemma split_on_join:
  "ps \<noteq> [] \<Longrightarrow> \<forall>p\<in>set ps. c \<notin> set p \<Longrightarrow> split_on c (join [c] ps) = ps"
proof (induction "[c]" ps rule: join.induct)
  case 1
  then show ?case by simp
next
  case (2 x)
  then show ?case by (simp add: split_on_none)
next
  case (3 x y ys)
  then show ?case by (simp add: split_on_append)
qed

lemma hash_join:
  "ids \<noteq> [] \<Longrightarrow> ''#'' @ join '',#'' ids = join '','' (map ((#) CHR ''#'') ids)"
  by (induction "'',#''" ids rule: join.induct) simp_all

lemma ident_char_comma: "\<not> ident_char CHR '',''"
  by (simp add: ident_char_def)

lemma simple_id_no_comma: "simple_id i \<Longrightarrow> CHR '','' \<notin> set i"
  using ident_char_comma by (auto simp: simple_id_def list_all_iff)

lemma classify_simple: "simple_id i \<Longrightarrow> classify (CHR ''#'' # i) = IdSel i"
  by (simp add: simple_id_def)

lemma sel_ids_IdSel: "sel_ids (map IdSel ids) = ids"
  by (induction ids) simp_all

lemma jq_select_simple:
  assumes "ids \<noteq> []" "\<forall>i\<in>set ids. simple_id i"
  shows "jq_select (''#'' @ join '',#'' ids) = Selected ids"
proof -
  let ?ps = "map ((#) CHR ''#'') ids"
  have "\<forall>p\<in>set ?ps. CHR '','' \<notin> set p"
    using assms(2) simple_id_no_comma by auto
  moreover have "?ps \<noteq> []" using assms(1) by simp
  ultimately have sp: "split_on CHR '','' (''#'' @ join '',#'' ids) = ?ps"
    using split_on_join [of ?ps "CHR '',''"] hash_join [OF assms(1)] by simp
  have cl: "map classify ?ps = map IdSel ids"
    using assms(2) by (auto simp: simple_id_def)
  show ?thesis
    unfolding jq_select_def sp cl
    by (auto simp: Let_def sel_ids_IdSel)
qed

lemma jq_select_hash: "jq_select ''#'' = SyntaxError ''#''"
  by (simp add: jq_select_def)

subsection \<open>Expanding again\<close>

lemma expand_container_all_active:
  "set (container_active_ids cid (expand_container_all ids cid c))
     = set (container_active_ids cid c) \<union> (set ids \<inter> set (cid # view_ids_list (content c)))"
  by (auto simp: container_active_ids_def expand_container_all_def expand_all_active)

lemma expand_container_all_ids:
  "view_ids_list (content (expand_container_all ids cid c)) = view_ids_list (content c)"
  by (simp add: expand_container_all_def expand_all_view_ids)

lemma expand_container_first_eq:
  "expand_container_first i cid c =
     (if cid = i then (c\<lparr>active_tree := True, rotated_caret := True\<rparr>, True)
      else (c\<lparr>content := fst (expand_first_list i (content c))\<rparr>,
            snd (expand_first_list i (content c))))"
  by (cases "expand_first_list i (content c)") (simp add: expand_container_first_def)

lemma expand_container_first_found:
  "snd (expand_container_first i cid c) \<longleftrightarrow> i \<in> set (cid # view_ids_list (content c))"
  by (auto simp: expand_container_first_eq expand_first_found)

lemma expand_container_first_active:
  "set (container_active_ids cid (fst (expand_container_first i cid c)))
     = set (container_active_ids cid c) \<union> ({i} \<inter> set (cid # view_ids_list (content c)))"
  by (auto simp: container_active_ids_def expand_container_first_eq expand_first_active)

lemma expand_container_first_ids:
  "view_ids_list (content (fst (expand_container_first i cid c))) = view_ids_list (content c)"
  by (simp add: expand_container_first_eq expand_first_view_ids)

lemma expand_document_all_active:
  "set (activeTreeIds (expand_document_all ids doc))
     = set (activeTreeIds doc) \<union> (set ids \<inter> set (all_ids doc))"
  unfolding activeTreeIds_def expand_document_all_def all_ids_def
  by (simp add: expand_container_all_active) blast

lemma expand_document_all_ids: "all_ids (expand_document_all ids doc) = all_ids doc"
  by (simp add: all_ids_def expand_document_all_def expand_container_all_ids)

lemma expand_document_first_eq:
  "expand_document_first i doc =
     (if snd (expand_container_first i ''localBranches'' (localBranches doc))
      then doc\<lparr>localBranches := fst (expand_container_first i ''localBranches'' (localBranches doc))\<rparr>
      else if snd (expand_container_first i ''remoteBranches'' (remoteBranches doc))
      then doc\<lparr>remoteBranches := fst (expand_container_first i ''remoteBranches'' (remoteBranches doc))\<rparr>
      else doc\<lparr>tags := fst (expand_container_first i ''tags'' (tags doc))\<rparr>)"
  unfolding expand_document_first_def
  by (cases "expand_container_first i ''localBranches'' (localBranches doc)";
      cases "expand_container_first i ''remoteBranches'' (remoteBranches doc)";
      cases "expand_container_first i ''tags'' (tags doc)") simp

lemma expand_document_first_active:
  "set (activeTreeIds (expand_document_first i doc))
     = set (activeTreeIds doc) \<union> ({i} \<inter> set (all_ids doc))"
proof -
  let ?L = "expand_container_first i ''localBranches'' (localBranches doc)"
  let ?R = "expand_container_first i ''remoteBranches'' (remoteBranches doc)"
  let ?T = "expand_container_first i ''tags'' (tags doc)"
  show ?thesis
  proof (cases "snd ?L")
    case True
    then have "i \<in> set (''localBranches'' # view_ids_list (content (localBranches doc)))"
      by (simp only: expand_container_first_found)
    with True show ?thesis
      unfolding expand_document_first_eq activeTreeIds_def all_ids_def
      by (simp add: expand_container_first_active) blast
  next
    case nl: False
    then have il: "i \<notin> set (''localBranches'' # view_ids_list (content (localBranches doc)))"
      by (simp only: expand_container_first_found) simp
    show ?thesis
    proof (cases "snd ?R")
      case True
      then have "i \<in> set (''remoteBranches'' # view_ids_list (content (remoteBranches doc)))"
        by (simp only: expand_container_first_found)
      with True nl il show ?thesis
        unfolding expand_document_first_eq activeTreeIds_def all_ids_def
        by (simp add: expand_container_first_active) blast
    next
      case nr: False
      then have ir: "i \<notin> set (''remoteBranches'' # view_ids_list (content (remoteBranches doc)))"
        by (simp only: expand_container_first_found) simp
      from nl nr il ir show ?thesis
        unfolding expand_document_first_eq activeTreeIds_def all_ids_def
        by (simp add: expand_container_first_active) blast
    qed
  qed
qed

lemma expand_document_first_ids: "all_ids (expand_document_first i doc) = all_ids doc"
  by (simp add: expand_document_first_eq all_ids_def expand_container_first_ids)

lemma container_ids_plain:
  "html_plain ''localBranches''" "html_plain ''remoteBranches''" "html_plain ''tags''"
  by (simp_all add: html_plain_def html_plain_char_def)

lemma rebuild_Some:
  assumes "buildBranchResultHTML (children (local_branch_info_tree bil)) ''localBranches'' = Some l"
    and "buildBranchResultHTML (children (remote_branch_info_tree bil)) ''remoteBranches'' = Some r"
    and "buildBranchResultHTML (children (tag_branch_info_tree bil)) ''tags'' = Some t"
  shows "rebuild doc bil =
           Some (doc\<lparr>localBranches := (localBranches doc)\<lparr>content := l\<rparr>,
                     remoteBranches := (remoteBranches doc)\<lparr>content := r\<rparr>,
                     tags := (tags doc)\<lparr>content := t\<rparr>\<rparr>)"
  unfolding rebuild_def assms option.case ..

lemma rebuild_cases:
  assumes "rebuild doc bil = Some d"
  obtains l r t where
    "buildBranchResultHTML (children (local_branch_info_tree bil)) ''localBranches'' = Some l"
    "buildBranchResultHTML (children (remote_branch_info_tree bil)) ''remoteBranches'' = Some r"
    "buildBranchResultHTML (children (tag_branch_info_tree bil)) ''tags'' = Some t"
    "d = doc\<lparr>localBranches := (localBranches doc)\<lparr>content := l\<rparr>,
             remoteBranches := (remoteBranches doc)\<lparr>content := r\<rparr>,
             tags := (tags doc)\<lparr>content := t\<rparr>\<rparr>"
proof (cases "buildBranchResultHTML (children (local_branch_info_tree bil)) ''localBranches''")
  case None
  with assms show ?thesis unfolding rebuild_def by simp
next
  case l: (Some l)
  show ?thesis
  proof (cases "buildBranchResultHTML (children (remote_branch_info_tree bil)) ''remoteBranches''")
    case None
    with assms l show ?thesis unfolding rebuild_def by simp
  next
    case r: (Some r)
    show ?thesis
    proof (cases "buildBranchResultHTML (children (tag_branch_info_tree bil)) ''tags''")
      case None
      with assms l r show ?thesis unfolding rebuild_def by simp
    next
      case t: (Some t)
      from assms have "d = doc\<lparr>localBranches := (localBranches doc)\<lparr>content := l\<rparr>,
             remoteBranches := (remoteBranches doc)\<lparr>content := r\<rparr>,
             tags := (tags doc)\<lparr>content := t\<rparr>\<rparr>"
        unfolding rebuild_Some [OF l r t] by simp
      with l r t that show ?thesis by blast
    qed
  qed
qed

lemma rebuild_plain:
  assumes "plain_snapshot bil"
  shows "\<exists>d. rebuild doc bil = Some d"
proof -
  from assms have p: "plain_names (children (local_branch_info_tree bil))"
    "plain_names (children (remote_branch_info_tree bil))"
    "plain_names (children (tag_branch_info_tree bil))"
    by (simp_all add: plain_snapshot_def)
  from build_plain(1) [OF container_ids_plain(1) p(1)] obtain l where
    l: "buildBranchResultHTML (children (local_branch_info_tree bil)) ''localBranches'' = Some l" ..
  from build_plain(1) [OF container_ids_plain(2) p(2)] obtain r where
    r: "buildBranchResultHTML (children (remote_branch_info_tree bil)) ''remoteBranches'' = Some r" ..
  from build_plain(1) [OF container_ids_plain(3) p(3)] obtain t where
    t: "buildBranchResultHTML (children (tag_branch_info_tree bil)) ''tags'' = Some t" ..
  from rebuild_Some [OF l r t] show ?thesis by blast
qed

lemma rebuild_active:
  assumes "rebuild doc bil = Some d"
  shows "set (activeTreeIds d) \<subseteq> set (activeTreeIds doc) \<inter> set (all_ids d)"
proof -
  from assms obtain l r t where
    l: "buildBranchResultHTML (children (local_branch_info_tree bil)) ''localBranches'' = Some l" and
    r: "buildBranchResultHTML (children (remote_branch_info_tree bil)) ''remoteBranches'' = Some r" and
    t: "buildBranchResultHTML (children (tag_branch_info_tree bil)) ''tags'' = Some t" and
    d: "d = doc\<lparr>localBranches := (localBranches doc)\<lparr>content := l\<rparr>,
                  remoteBranches := (remoteBranches doc)\<lparr>content := r\<rparr>,
                  tags := (tags doc)\<lparr>content := t\<rparr>\<rparr>"
    by (rule rebuild_cases)
  have a: "active_ids_list l = []" "active_ids_list r = []" "active_ids_list t = []"
    using build_Some_collapsed(1) l r t by blast+
  show ?thesis
    unfolding d
    by (auto simp: activeTreeIds_def all_ids_def container_active_ids_def a)
qed

lemma updateBranchInfo_simple:
  assumes "activeTreeIds doc \<noteq> []" "\<forall>i\<in>set (activeTreeIds doc). simple_id i"
    and rb: "rebuild doc bil = Some d"
  shows "snd (updateBranchInfo doc bil) = Completed"
    and "set (activeTreeIds (fst (updateBranchInfo doc bil)))
           = set (activeTreeIds doc) \<inter> set (all_ids (fst (updateBranchInfo doc bil)))"
    and "all_ids (fst (updateBranchInfo doc bil)) = all_ids d"
proof -
  let ?ids = "activeTreeIds doc"
  have sel: "jq_select (''#'' @ join '',#'' ?ids) = Selected ?ids"
    using assms(1,2) by (rule jq_select_simple)
  have u: "updateBranchInfo doc bil =
      (case ?ids of [i] \<Rightarrow> (expand_document_first i d, Completed)
                  | _ \<Rightarrow> (expand_document_all ?ids d, Completed))"
    unfolding updateBranchInfo_def Let_def rb option.case sel by (simp split: list.splits)
  show "snd (updateBranchInfo doc bil) = Completed"
    by (simp add: u split: list.splits)
  show ids: "all_ids (fst (updateBranchInfo doc bil)) = all_ids d"
    by (simp add: u expand_document_first_ids expand_document_all_ids split: list.splits)
  have "set (activeTreeIds (fst (updateBranchInfo doc bil)))
          = set (activeTreeIds d) \<union> (set ?ids \<inter> set (all_ids d))"
  proof (cases "\<exists>i. ?ids = [i]")
    case True
    then obtain i where i: "?ids = [i]" by blast
    then show ?thesis by (simp add: u expand_document_first_active)
  next
    case False
    then have "fst (updateBranchInfo doc bil) = expand_document_all ?ids d"
      by (auto simp: u split: list.splits)
    then show ?thesis by (simp add: expand_document_all_active)
  qed
  with rebuild_active [OF rb] ids
  show "set (activeTreeIds (fst (updateBranchInfo doc bil)))
           = set (activeTreeIds doc) \<inter> set (all_ids (fst (updateBranchInfo doc bil)))"
    by auto
qed

subsection \<open>Path identities are ids\<close>

lemma path_id_concat: "path_id c segs = c @ concat (map ((#) CHR ''-'') segs)"
  by (induction segs arbitrary: c) (simp_all add: path_id_def)

lemma dash_prefix_unique:
  assumes "CHR ''-'' \<notin> set x" "CHR ''-'' \<notin> set y"
    and "r1 = [] \<or> (\<exists>u. r1 = CHR ''-'' # u)" "r2 = [] \<or> (\<exists>u. r2 = CHR ''-'' # u)"
    and "x @ r1 = y @ r2"
  shows "x = y \<and> r1 = r2"
  using assms
proof (induction x arbitrary: y)
  case Nil
  then show ?case by (cases y) auto
next
  case (Cons a x)
  show ?case
  proof (cases y)
    case Nil
    with Cons.prems show ?thesis by auto
  next
    case (Cons b y')
    with Cons.prems Cons.IH [of y'] show ?thesis by auto
  qed
qed

lemma dashed_tail: "concat (map ((#) CHR ''-'') segs) = [] \<or> (\<exists>u. concat (map ((#) CHR ''-'') segs) = CHR ''-'' # u)"
  by (cases segs) simp_all

lemma dashed_inj:
  assumes "\<forall>t\<in>set s1. CHR ''-'' \<notin> set t" "\<forall>t\<in>set s2. CHR ''-'' \<notin> set t"
    and "concat (map ((#) CHR ''-'') s1) = concat (map ((#) CHR ''-'') s2)"
  shows "s1 = s2"
  using assms
proof (induction s1 arbitrary: s2)
  case Nil
  then show ?case by (cases s2) auto
next
  case (Cons t ts)
  show ?case
  proof (cases s2)
    case Nil
    with Cons.prems show ?thesis by auto
  next
    case (Cons t' ts')
    with Cons.prems have eq: "t @ concat (map ((#) CHR ''-'') ts) = t' @ concat (map ((#) CHR ''-'') ts')"
      by simp
    have "t = t' \<and> concat (map ((#) CHR ''-'') ts) = concat (map ((#) CHR ''-'') ts')"
      by (rule dash_prefix_unique [OF _ _ dashed_tail dashed_tail eq])
         (use Cons Cons.prems in auto)
    with Cons.IH [of ts'] Cons Cons.prems show ?thesis by auto
  qed
qed

lemma path_id_inj:
  assumes "CHR ''-'' \<notin> set c1" "CHR ''-'' \<notin> set c2"
    and "\<forall>t\<in>set s1. CHR ''-'' \<notin> set t" "\<forall>t\<in>set s2. CHR ''-'' \<notin> set t"
    and "path_id c1 s1 = path_id c2 s2"
  shows "c1 = c2 \<and> s1 = s2"
proof -
  have "c1 = c2 \<and> concat (map ((#) CHR ''-'') s1) = concat (map ((#) CHR ''-'') s2)"
    by (rule dash_prefix_unique [OF assms(1,2) dashed_tail dashed_tail])
       (use assms(5) in \<open>simp add: path_id_concat\<close>)
  with dashed_inj [OF assms(3,4)] show ?thesis by blast
qed

subsection \<open>Concrete pages\<close>

lemma plain_ids:
  "html_plain ''localBranches-x''" "html_plain ''localBranches-y''"
  "html_plain ''localBranches-x,#localBranches-y''"
  by (simp_all add: html_plain_def html_plain_char_def)

lemma xy_rendered:
  "buildBranchResultHTML (children (local_branch_info_tree xy_snapshot)) ''localBranches''
     = Some [Nested ''localBranches-x'' False False ''x''
               [InnerItem ''1'' [] \<lparr>is_head = False, behind = 0, ahead = 0, branch_type = ''local'',
                  full_branch_name = ''refs/heads/x/1'', branch_shorthand = ''refs/heads/x/1''\<rparr>],
             Nested ''localBranches-y'' False False ''y''
               [InnerItem ''1'' [] \<lparr>is_head = False, behind = 0, ahead = 0, branch_type = ''local'',
                  full_branch_name = ''refs/heads/y/1'', branch_shorthand = ''refs/heads/y/1''\<rparr>]]"
  "buildBranchResultHTML (children (remote_branch_info_tree xy_snapshot)) ''remoteBranches'' = Some []"
  "buildBranchResultHTML (children (tag_branch_info_tree xy_snapshot)) ''tags'' = Some []"
  by (simp_all add: xy_snapshot_def snapshot_def dir_def leaf_def plain_ids)

lemma xy_rebuild:
  "rebuild doc xy_snapshot =
     Some (doc\<lparr>localBranches := (localBranches doc)\<lparr>content :=
                  [Nested ''localBranches-x'' False False ''x''
                     [InnerItem ''1'' [] \<lparr>is_head = False, behind = 0, ahead = 0,
                        branch_type = ''local'', full_branch_name = ''refs/heads/x/1'',
                        branch_shorthand = ''refs/heads/x/1''\<rparr>],
                   Nested ''localBranches-y'' False False ''y''
                     [InnerItem ''1'' [] \<lparr>is_head = False, behind = 0, ahead = 0,
                        branch_type = ''local'', full_branch_name = ''refs/heads/y/1'',
                        branch_shorthand = ''refs/heads/y/1''\<rparr>]]\<rparr>,
               remoteBranches := (remoteBranches doc)\<lparr>content := []\<rparr>,
               tags := (tags doc)\<lparr>content := []\<rparr>\<rparr>)"
  by (rule rebuild_Some [OF xy_rendered])

lemma comma_ids: "activeTreeIds comma_document = [''localBranches-x,#localBranches-y'']"
  by (simp add: comma_document_def rendered_def dir_def leaf_def plain_ids activeTreeIds_def
        container_active_ids_def empty_container_def)

lemma startup_ids: "activeTreeIds startup_document = []"
  by (simp add: startup_document_def activeTreeIds_def container_active_ids_def
        empty_container_def)

lemma sel_xy: "jq_select ''#localBranches-x,#localBranches-y''
    = Selected [''localBranches-x'', ''localBranches-y'']"
  by (simp add: jq_select_def ident_char_def)

lemma update_comma:
  "updateBranchInfo comma_document xy_snapshot =
     (expand_document_all [''localBranches-x'', ''localBranches-y'']
        (comma_document\<lparr>localBranches := (localBranches comma_document)\<lparr>content :=
                  [Nested ''localBranches-x'' False False ''x''
                     [InnerItem ''1'' [] \<lparr>is_head = False, behind = 0, ahead = 0,
                        branch_type = ''local'', full_branch_name = ''refs/heads/x/1'',
                        branch_shorthand = ''refs/heads/x/1''\<rparr>],
                   Nested ''localBranches-y'' False False ''y''
                     [InnerItem ''1'' [] \<lparr>is_head = False, behind = 0, ahead = 0,
                        branch_type = ''local'', full_branch_name = ''refs/heads/y/1'',
                        branch_shorthand = ''refs/heads/y/1''\<rparr>]]\<rparr>,
               remoteBranches := (remoteBranches comma_document)\<lparr>content := []\<rparr>,
               tags := (tags comma_document)\<lparr>content := []\<rparr>\<rparr>), Completed)"
proof -
  have j: "''#'' @ join '',#'' [''localBranches-x,#localBranches-y'']
             = ''#localBranches-x,#localBranches-y''"
    by simp
  show ?thesis
    unfolding updateBranchInfo_def Let_def comma_ids xy_rebuild option.case j sel_xy
    by simp
qed

lemma comma_flags:
  "active_tree (localBranches comma_document) = False"
  "active_tree (remoteBranches comma_document) = False"
  "active_tree (tags comma_document) = False"
  by (simp_all add: comma_document_def empty_container_def)

lemma update_startup:
  "updateBranchInfo startup_document xy_snapshot =
     (startup_document\<lparr>localBranches := (localBranches startup_document)\<lparr>content :=
                  [Nested ''localBranches-x'' False False ''x''
                     [InnerItem ''1'' [] \<lparr>is_head = False, behind = 0, ahead = 0,
                        branch_type = ''local'', full_branch_name = ''refs/heads/x/1'',
                        branch_shorthand = ''refs/heads/x/1''\<rparr>],
                   Nested ''localBranches-y'' False False ''y''
                     [InnerItem ''1'' [] \<lparr>is_head = False, behind = 0, ahead = 0,
                        branch_type = ''local'', full_branch_name = ''refs/heads/y/1'',
                        branch_shorthand = ''refs/heads/y/1''\<rparr>]]\<rparr>,
               remoteBranches := (remoteBranches startup_document)\<lparr>content := []\<rparr>,
               tags := (tags startup_document)\<lparr>content := []\<rparr>\<rparr>, Raised ''#'')"
proof -
  have j: "''#'' @ join '',#'' [] = ''#''" by simp
  show ?thesis
    unfolding updateBranchInfo_def Let_def startup_ids xy_rebuild option.case j jq_select_hash
    by simp
qed

lemma startup_flags:
  "active_tree (localBranches startup_document) = False"
  "active_tree (remoteBranches startup_document) = False"
  "active_tree (tags startup_document) = False"
  by (simp_all add: startup_document_def empty_container_def)

lemma plain_feature:
  "html_plain ''localBranches-feature''" "html_plain ''localBranches-release''"
  "html_plain ''localBranches-release-v1''" "html_plain ''localBranches-a-b''"
  "html_plain ''localBranches-a''" "html_plain ''feature''" "html_plain ''release''"
  "html_plain ''v1''"
  by (simp_all add: html_plain_def html_plain_char_def)

lemma release_rendered:
  "map_option view_ids_list (buildBranchResultHTML release_tree ''localBranches'')
     = Some [''localBranches-feature'', ''localBranches-release'', ''localBranches-release-v1'']"
  by (simp add: release_tree_def dir_def leaf_def plain_feature)

lemma feature_ids:
  "activeTreeIds feature_document
     = [''localBranches'', ''localBranches-feature'', ''localBranches-release'']"
  by (simp add: feature_document_def rendered_def activeTreeIds_def container_active_ids_def
        empty_container_def dir_def leaf_def plain_feature)

lemma feature_plain: "plain_snapshot feature_snapshot"
  by (simp add: plain_snapshot_def plain_names_def feature_snapshot_def snapshot_def
        dir_def leaf_def plain_feature)

lemma feature_rebuild_ids:
  "map_option all_ids (rebuild feature_document feature_snapshot)
     = Some [''localBranches'', ''localBranches-feature'', ''remoteBranches'', ''tags'']"
proof -
  have l: "buildBranchResultHTML (children (local_branch_info_tree feature_snapshot)) ''localBranches''
     = Some [InnerItem ''main'' [] \<lparr>is_head = False, behind = 0, ahead = 0,
                branch_type = ''local'', full_branch_name = ''refs/heads/main'',
                branch_shorthand = ''refs/heads/main''\<rparr>,
             Nested ''localBranches-feature'' False False ''feature''
               [InnerItem ''a'' [] \<lparr>is_head = False, behind = 0, ahead = 0,
                  branch_type = ''local'', full_branch_name = ''refs/heads/feature/a'',
                  branch_shorthand = ''refs/heads/feature/a''\<rparr>]]"
    by (simp add: feature_snapshot_def snapshot_def dir_def leaf_def plain_feature)
  have r: "buildBranchResultHTML (children (remote_branch_info_tree feature_snapshot))
             ''remoteBranches'' = Some []"
    by (simp add: feature_snapshot_def snapshot_def dir_def)
  have t: "buildBranchResultHTML (children (tag_branch_info_tree feature_snapshot)) ''tags''
             = Some []"
    by (simp add: feature_snapshot_def snapshot_def dir_def)
  show ?thesis
    unfolding rebuild_Some [OF l r t] by (simp add: all_ids_def)
qed

text \<open>
  Claim C8, as the specification states it: for every non-empty captured expansion
  state and every new tree, the lists expanded again are among the captured ones.  The
  captured ids are pasted into one selector string, so an id that contains \<open>,#\<close> is read
  as two ids: with the directory \<open>x,#localBranches-y\<close> expanded, the selector is
  \<open>#localBranches-x,#localBranches-y\<close>, and in a new tree with the directories \<open>x\<close> and
  \<open>y\<close> both are expanded, although neither was captured.
\<close>

theorem C8_counterexample:
  "activeTreeIds comma_document = [''localBranches-x,#localBranches-y'']
   \<and> snd (updateBranchInfo comma_document xy_snapshot) = Completed
   \<and> activeTreeIds (fst (updateBranchInfo comma_document xy_snapshot))
       = [''localBranches-x'', ''localBranches-y'']
   \<and> \<not> set (activeTreeIds (fst (updateBranchInfo comma_document xy_snapshot)))
           \<subseteq> set (activeTreeIds comma_document)"
  unfolding update_comma comma_ids
  by (simp add: expand_document_all_def expand_container_all_def activeTreeIds_def
        container_active_ids_def comma_flags)

text \<open>
  Claim C8, amended: for every non-empty captured expansion state whose ids consist of
  letters, digits, \<open>_\<close> and \<open>-\<close> only, and for every new tree in which the names of the
  nodes with children are plain (printable ASCII without \<open>"\<close>, \<open>&\<close>, \<open><\<close> and \<open>>\<close>, so
  that the markup built from them holds them unchanged), \<open>updateBranchInfo\<close> completes
  without an error, and the lists that carry \<open>active-tree\<close> afterwards are exactly the
  captured ids that exist in the rebuilt page: a captured id that no longer exists is
  simply absent, the expanded lists are a subset of the captured state, and every
  other list stays collapsed.
\<close>

theorem C8_reconcile_simple_ids:
  assumes "activeTreeIds doc \<noteq> []" and "\<forall>i\<in>set (activeTreeIds doc). simple_id i"
    and "plain_snapshot bil"
  shows "snd (updateBranchInfo doc bil) = Completed
         \<and> set (activeTreeIds (fst (updateBranchInfo doc bil))) \<subseteq> set (activeTreeIds doc)
         \<and> set (activeTreeIds (fst (updateBranchInfo doc bil)))
             = set (activeTreeIds doc) \<inter> set (all_ids (fst (updateBranchInfo doc bil)))
         \<and> map_option all_ids (rebuild doc bil)
             = Some (all_ids (fst (updateBranchInfo doc bil)))"
proof -
  from rebuild_plain [OF assms(3)] obtain d where d: "rebuild doc bil = Some d" by blast
  from updateBranchInfo_simple [OF assms(1,2) d] d show ?thesis by auto
qed

theorem C8_reconcile_simple_ids_witness:
  "activeTreeIds feature_document
     = [''localBranches'', ''localBranches-feature'', ''localBranches-release'']
   \<and> list_all simple_id (activeTreeIds feature_document)
   \<and> plain_snapshot feature_snapshot
   \<and> snd (updateBranchInfo feature_document feature_snapshot) = Completed
   \<and> all_ids (fst (updateBranchInfo feature_document feature_snapshot))
       = [''localBranches'', ''localBranches-feature'', ''remoteBranches'', ''tags'']
   \<and> set (activeTreeIds (fst (updateBranchInfo feature_document feature_snapshot)))
       = {''localBranches'', ''localBranches-feature''}"
proof -
  note ids = feature_ids
  have ne: "activeTreeIds feature_document \<noteq> []"
    by (simp add: ids)
  have si: "\<forall>i\<in>set (activeTreeIds feature_document). simple_id i"
    by (simp add: ids simple_id_def ident_char_def)
  have sl: "list_all simple_id (activeTreeIds feature_document)"
    using si by (simp add: list_all_iff)
  from C8_reconcile_simple_ids [OF ne si feature_plain]
  have c: "snd (updateBranchInfo feature_document feature_snapshot) = Completed"
    and e: "set (activeTreeIds (fst (updateBranchInfo feature_document feature_snapshot)))
             = set (activeTreeIds feature_document)
               \<inter> set (all_ids (fst (updateBranchInfo feature_document feature_snapshot)))"
    and a: "map_option all_ids (rebuild feature_document feature_snapshot)
             = Some (all_ids (fst (updateBranchInfo feature_document feature_snapshot)))"
    by blast+
  from a have al: "all_ids (fst (updateBranchInfo feature_document feature_snapshot))
       = [''localBranches'', ''localBranches-feature'', ''remoteBranches'', ''tags'']"
    unfolding feature_rebuild_ids by simp
  have s: "set (activeTreeIds (fst (updateBranchInfo feature_document feature_snapshot)))
       = {''localBranches'', ''localBranches-feature''}"
    unfolding e al ids by auto
  from ids sl feature_plain c al s show ?thesis by blast
qed

text \<open>
  Claim C9: when no list is expanded before a rebuild, reconciliation still completes
  without an error and leaves the new tree collapsed.  Evaluated on the page with all
  three views collapsed: the captured array is empty, the selector string is \<open>#\<close>, and
  jQuery throws on it.  The new tree has been rendered collapsed by then, but
  \<open>updateBranchInfo\<close> does not return normally.
\<close>

theorem C9_empty_state_raises:
  "activeTreeIds startup_document = []
   \<and> snd (updateBranchInfo startup_document xy_snapshot) = Raised ''#''
   \<and> activeTreeIds (fst (updateBranchInfo startup_document xy_snapshot)) = []
   \<and> all_ids (fst (updateBranchInfo startup_document xy_snapshot))
       = [''localBranches'', ''localBranches-x'', ''localBranches-y'', ''remoteBranches'', ''tags'']"
  unfolding update_startup startup_ids
  by (simp add: all_ids_def activeTreeIds_def container_active_ids_def startup_flags)

text \<open>
  Claim C10, as stated: the id of a nested list, the container id joined with the
  segment texts by \<open>-\<close>, is different for different root-to-node segment sequences.
  Segments may contain \<open>-\<close> themselves: with the branches \<open>a-b/x\<close> and \<open>a/b/y\<close> the
  directory \<open>a-b\<close> and the directory \<open>b\<close> inside \<open>a\<close> both get the id
  \<open>localBranches-a-b\<close>.
\<close>

theorem C10_counterexample:
  "[''a-b''] \<in> set (interior_paths_list collision_tree)
   \<and> [''a'', ''b''] \<in> set (interior_paths_list collision_tree)
   \<and> [''a-b''] \<noteq> [''a'', ''b'']
   \<and> path_id ''localBranches'' [''a-b''] = path_id ''localBranches'' [''a'', ''b'']
   \<and> map_option view_ids_list (buildBranchResultHTML collision_tree ''localBranches'')
       = Some [''localBranches-a-b'', ''localBranches-a'', ''localBranches-a-b'']"
  by (simp add: collision_tree_def dir_def leaf_def path_id_def plain_feature)

text \<open>
  Claim C10, amended: for trees in which the names of the nodes with children are plain
  (printable ASCII without \<open>"\<close>, \<open>&\<close>, \<open><\<close> and \<open>>\<close>, so that the \<open>id\<close> attribute holds them
  unchanged), the ids of the nested lists that \<open>buildBranchResultHTML\<close> renders are the
  container id joined with the segment texts by \<open>-\<close>; and this identity is injective
  on plain container ids and plain segment sequences in which neither the container id
  nor any segment contains the character \<open>-\<close>: two such nodes with different containers
  or different segment sequences get different ids.  (The three container ids
  \<open>localBranches\<close>, \<open>remoteBranches\<close> and \<open>tags\<close> are plain and contain no \<open>-\<close>.)
\<close>

theorem C10_path_id_injective:
  assumes "html_plain c1" and "html_plain c2"
    and "CHR ''-'' \<notin> set c1" and "CHR ''-'' \<notin> set c2"
    and "plain_names cs1" and "plain_names cs2"
    and "s1 \<in> set (interior_paths_list cs1)" and "s2 \<in> set (interior_paths_list cs2)"
    and "\<forall>t\<in>set (s1 @ s2). CHR ''-'' \<notin> set t"
    and "(c1, s1) \<noteq> (c2, s2)"
  shows "\<exists>vs1 vs2. buildBranchResultHTML cs1 c1 = Some vs1
           \<and> buildBranchResultHTML cs2 c2 = Some vs2
           \<and> view_ids_list vs1 = map (path_id c1) (interior_paths_list cs1)
           \<and> view_ids_list vs2 = map (path_id c2) (interior_paths_list cs2)
           \<and> path_id c1 s1 \<in> set (view_ids_list vs1)
           \<and> path_id c2 s2 \<in> set (view_ids_list vs2)
           \<and> path_id c1 s1 \<noteq> path_id c2 s2"
proof -
  from build_plain(1) [OF assms(1,5)] obtain vs1 where
    v1: "buildBranchResultHTML cs1 c1 = Some vs1" by blast
  from build_plain(1) [OF assms(2,6)] obtain vs2 where
    v2: "buildBranchResultHTML cs2 c2 = Some vs2" by blast
  have i1: "view_ids_list vs1 = map (path_id c1) (interior_paths_list cs1)"
    using v1 by (rule build_Some_ids(1))
  have i2: "view_ids_list vs2 = map (path_id c2) (interior_paths_list cs2)"
    using v2 by (rule build_Some_ids(1))
  have m1: "path_id c1 s1 \<in> set (view_ids_list vs1)"
    using i1 assms(7) by simp
  have m2: "path_id c2 s2 \<in> set (view_ids_list vs2)"
    using i2 assms(8) by simp
  have ne: "path_id c1 s1 \<noteq> path_id c2 s2"
  proof
    assume "path_id c1 s1 = path_id c2 s2"
    with assms(3,4,9) have "c1 = c2 \<and> s1 = s2"
      by (intro path_id_inj) auto
    with assms(10) show False by simp
  qed
  from v1 v2 i1 i2 m1 m2 ne show ?thesis by blast
qed

theorem C10_path_id_injective_witness:
  "html_plain ''localBranches'' \<and> CHR ''-'' \<notin> set ''localBranches''
   \<and> plain_names release_tree
   \<and> [''release'', ''v1''] \<in> set (interior_paths_list release_tree)
   \<and> [''release''] \<in> set (interior_paths_list release_tree)
   \<and> list_all (\<lambda>t. CHR ''-'' \<notin> set t) ([''release'', ''v1''] @ [''release''])
   \<and> (''localBranches'', [''release'', ''v1'']) \<noteq> (''localBranches'', [''release''])
   \<and> map_option view_ids_list (buildBranchResultHTML release_tree ''localBranches'')
       = Some [''localBranches-feature'', ''localBranches-release'', ''localBranches-release-v1'']
   \<and> path_id ''localBranches'' [''release'', ''v1''] \<noteq> path_id ''localBranches'' [''release'']"
proof -
  note a = container_ids_plain(1)
  have b: "CHR ''-'' \<notin> set ''localBranches''" by simp
  have c: "plain_names release_tree"
    by (simp add: plain_names_def release_tree_def dir_def leaf_def plain_feature)
  have d: "[''release'', ''v1''] \<in> set (interior_paths_list release_tree)"
    by (simp add: release_tree_def dir_def leaf_def)
  have e: "[''release''] \<in> set (interior_paths_list release_tree)"
    by (simp add: release_tree_def dir_def leaf_def)
  have f: "\<forall>t\<in>set ([''release'', ''v1''] @ [''release'']). CHR ''-'' \<notin> set t" by simp
  have f': "list_all (\<lambda>t. CHR ''-'' \<notin> set t) ([''release'', ''v1''] @ [''release''])" by simp
  have g: "(''localBranches'', [''release'', ''v1'']) \<noteq> (''localBranches'', [''release''])"
    by simp
  from C10_path_id_injective [OF a a b b c c d e f g]
  have n: "path_id ''localBranches'' [''release'', ''v1''] \<noteq> path_id ''localBranches'' [''release'']"
    by blast
  from a b c d e f' g release_rendered n show ?thesis by blast
qed

end
